theory Spec2Isabelle
  imports Complex_Main
begin

section \<open>The benchmark decorator of Assignment2/Part3/benchmark.py\<close>

text \<open>
  The module defines a decorator \<^verbatim>\<open>benchmark(warmups, iter, verbose, csv_file)\<close> whose
  \<^verbatim>\<open>wrapper\<close> runs the decorated callable \<^verbatim>\<open>warmups + iter\<close> times, times every run,
  optionally writes the timings to a csv file and prints a table of mean and variance, and
  a driver \<^verbatim>\<open>test(f, test_iterations)\<close> that benchmarks a workload on 1, 2, 4 and 8
  threads.

  The embedding is a state-and-exception passing one. Everything the program touches
  outside its own variables is a field of the record \<open>world\<close>; an operation maps a world
  to either \<open>Inl (e, s)\<close>, the exception \<open>e\<close> raised in world \<open>s\<close>, or \<open>Inr (v, s)\<close>, the
  value \<open>v\<close> returned in world \<open>s\<close>. The decorated callable and the workload are arbitrary
  such operations: they may read and change any field of the world, and they may raise.

  Python's floats are modelled by the reals: rounding is not modelled, and the two
  conversions of a float to text that the program uses are parameters (\<open>float_text\<close>).
  The clock is an oracle, the sequence of the values its successive readings return. Of
  the operating system's failures only that of \<^verbatim>\<open>open\<close> is modelled; \<^verbatim>\<open>print\<close> and
  \<^verbatim>\<open>file.write\<close> succeed. Standard error is not part of the world. The field
  \<open>invocations\<close> is not the program's: it counts the calls of the workload (see the driver).
\<close>

subsection \<open>The world\<close>

record 'u world =
  stdout :: "string list"            \<comment> \<open>one entry per call of \<^verbatim>\<open>print\<close>, oldest first\<close>
  files :: "string \<rightharpoonup> string"         \<comment> \<open>the contents of the files, by path\<close>
  writable :: "string \<Rightarrow> bool"        \<comment> \<open>whether \<^verbatim>\<open>open(path, 'w')\<close> succeeds\<close>
  clock :: "nat \<Rightarrow> real"              \<comment> \<open>what the successive readings of the clock return\<close>
  clock_reads :: nat                 \<comment> \<open>how many readings were taken\<close>
  schedule :: "nat \<Rightarrow> nat"            \<comment> \<open>the successive choices of the thread scheduler\<close>
  schedule_pos :: nat                \<comment> \<open>how many choices were made\<close>
  invocations :: nat                 \<comment> \<open>how many calls of the workload the threads made\<close>
  user :: 'u                         \<comment> \<open>whatever else the callables read and write\<close>

datatype 'e error =
    Callable_raised 'e               \<comment> \<open>an exception raised by the decorated callable\<close>
  | OS_error                         \<comment> \<open>\<^verbatim>\<open>open\<close> failed\<close>
  | Statistics_error                 \<comment> \<open>\<^verbatim>\<open>mean\<close> or \<^verbatim>\<open>variance\<close> on too few data points\<close>

type_synonym ('e, 'u, 'a) action = "'u world \<Rightarrow> ('e error \<times> 'u world) + ('a \<times> 'u world)"

text \<open>A callable raises exceptions of its own type \<open>'x\<close>; its return value is discarded.\<close>

type_synonym ('x, 'u) callable = "'u world \<Rightarrow> ('x \<times> 'u world) + (unit \<times> 'u world)"

text \<open>A run record is the tuple \<^verbatim>\<open>(i + 1, is_warmup, execution_time)\<close>.\<close>

type_synonym run = "int \<times> bool \<times> real"

record float_text =
  str_float :: "real \<Rightarrow> string"      \<comment> \<open>\<^verbatim>\<open>str(x)\<close>\<close>
  format_8 :: "real \<Rightarrow> string"       \<comment> \<open>\<^verbatim>\<open>format(x, '.8')\<close>\<close>

subsection \<open>Built-in operations\<close>

definition then_do ::
  "('e, 'u, 'a) action \<Rightarrow> ('a \<Rightarrow> ('e, 'u, 'b) action) \<Rightarrow> ('e, 'u, 'b) action" where
  "then_do m f s = (case m s of Inl x \<Rightarrow> Inl x | Inr (v, s') \<Rightarrow> f v s')"

text \<open>The world in which an operation ends, whether it returns or raises.\<close>

definition outcome_world :: "('a \<times> 'u world) + ('b \<times> 'u world) \<Rightarrow> 'u world" where
  "outcome_world r = (case r of Inl (_, s) \<Rightarrow> s | Inr (_, s) \<Rightarrow> s)"

definition perf_counter :: "'u world \<Rightarrow> real \<times> 'u world" where
  "perf_counter s = (clock s (clock_reads s), s\<lparr>clock_reads := Suc (clock_reads s)\<rparr>)"

definition py_print :: "string \<Rightarrow> 'u world \<Rightarrow> 'u world" where
  "py_print line s = s\<lparr>stdout := stdout s @ [line]\<rparr>"

definition open_w :: "string \<Rightarrow> ('e, 'u, unit) action" where
  "open_w path s =
     (if writable s path then Inr ((), s\<lparr>files := (files s)(path \<mapsto> [])\<rparr>)
      else Inl (OS_error, s))"

definition file_write :: "string \<Rightarrow> string \<Rightarrow> 'u world \<Rightarrow> 'u world" where
  "file_write path text s =
     s\<lparr>files := (files s)(path \<mapsto> (case files s path of None \<Rightarrow> text | Some c \<Rightarrow> c @ text))\<rparr>"

definition py_range :: "int \<Rightarrow> int list" where
  "py_range n = [0..n - 1]"

definition digit :: "nat \<Rightarrow> char" where
  "digit d = ''0123456789'' ! d"

fun str_nat :: "nat \<Rightarrow> string" where
  "str_nat n = (if n < 10 then [digit n] else str_nat (n div 10) @ [digit (n mod 10)])"

declare str_nat.simps [simp del]

definition str_int :: "int \<Rightarrow> string" where
  "str_int i = (if i < 0 then CHR ''-'' # str_nat (nat (- i)) else str_nat (nat i))"

definition str_bool :: "bool \<Rightarrow> string" where
  "str_bool b = (if b then ''True'' else ''False'')"

fun join :: "string \<Rightarrow> string list \<Rightarrow> string" where
  "join sep [] = []"
| "join sep [x] = x"
| "join sep (x # y # ys) = x @ sep @ join sep (y # ys)"

definition rjust :: "nat \<Rightarrow> string \<Rightarrow> string" where
  "rjust w text = replicate (w - length text) CHR '' '' @ text"

text \<open>The format fields \<^verbatim>\<open>{:>14}\<close> and \<^verbatim>\<open>{:>14.8}\<close>, by the type of the argument.\<close>

definition format_str :: "nat \<Rightarrow> nat option \<Rightarrow> string \<Rightarrow> string" where
  "format_str w p text = rjust w (case p of None \<Rightarrow> text | Some k \<Rightarrow> take k text)"

definition format_int :: "nat \<Rightarrow> int \<Rightarrow> string" where
  "format_int w i = rjust w (str_int i)"

definition format_float_8 :: "float_text \<Rightarrow> nat \<Rightarrow> real \<Rightarrow> string" where
  "format_float_8 ft w x = rjust w (format_8 ft x)"

text \<open>\<^verbatim>\<open>statistics.mean\<close> and \<^verbatim>\<open>statistics.variance\<close> (the sample variance).\<close>

definition mean_value :: "real list \<Rightarrow> real" where
  "mean_value xs = sum_list xs / real (length xs)"

definition variance_value :: "real list \<Rightarrow> real" where
  "variance_value xs =
     (let m = mean_value xs in sum_list (map (\<lambda>x. (x - m)\<^sup>2) xs) / real (length xs - 1))"

definition mean :: "real list \<Rightarrow> 'e error + real" where
  "mean xs = (if length xs < 1 then Inl Statistics_error else Inr (mean_value xs))"

definition variance :: "real list \<Rightarrow> 'e error + real" where
  "variance xs = (if length xs < 2 then Inl Statistics_error else Inr (variance_value xs))"

subsection \<open>The wrapper\<close>

text \<open>
  The loop of \<^verbatim>\<open>start_runs\<close>, over the indices that \<^verbatim>\<open>range(n)\<close> gives and with the list
  \<^verbatim>\<open>runs\<close> as accumulator. An exception of the callable leaves the loop at once.
\<close>

fun runs_loop ::
  "float_text \<Rightarrow> ('x, 'u) callable \<Rightarrow> bool \<Rightarrow> int \<Rightarrow> bool \<Rightarrow> string \<Rightarrow> int list \<Rightarrow> run list
     \<Rightarrow> ('x, 'u, run list) action" where
  "runs_loop ft func verbose n is_warmup title [] runs s = Inr (runs, s)"
| "runs_loop ft func verbose n is_warmup title (i # is) runs s =
     (case perf_counter s of (t1, s1) \<Rightarrow>
      (case func s1 of
         Inl (e, s2) \<Rightarrow> Inl (Callable_raised e, s2)
       | Inr (_, s2) \<Rightarrow>
          (case perf_counter s2 of (t2, s3) \<Rightarrow>
            let execution_time = t2 - t1;
                runs' = runs @ [(i + 1, is_warmup, execution_time)];
                s4 = (if verbose
                      then py_print (title @ '' '' @ str_int (i + 1) @ ''/'' @ str_int n @ '': ''
                                       @ format_float_8 ft 14 execution_time @ '' s'') s3
                      else s3)
            in runs_loop ft func verbose n is_warmup title is runs' s4)))"

definition start_runs ::
  "float_text \<Rightarrow> ('x, 'u) callable \<Rightarrow> bool \<Rightarrow> int \<Rightarrow> bool \<Rightarrow> string \<Rightarrow> ('x, 'u, run list) action" where
  "start_runs ft func verbose n is_warmup title s =
     runs_loop ft func verbose n is_warmup title (py_range n) [] s"

text \<open>Lines 44 to 45: the warmup runs, then the standard executions.\<close>

definition execute_runs ::
  "float_text \<Rightarrow> int \<Rightarrow> int \<Rightarrow> bool \<Rightarrow> ('x, 'u) callable \<Rightarrow> ('x, 'u, run list \<times> run list) action" where
  "execute_runs ft warmups iter verbose func =
     then_do (start_runs ft func verbose warmups True ''Warmup round'') (\<lambda>warmup_runs.
     then_do (start_runs ft func verbose iter False ''Execution round'') (\<lambda>execution_runs.
     (\<lambda>s. Inr ((warmup_runs, execution_runs), s))))"

text \<open>Lines 50 to 55: the csv file, when a path is given.\<close>

definition csv_header :: "string list" where
  "csv_header = [''run num'', ''is warmup'', ''timing'']"

definition str_run :: "float_text \<Rightarrow> run \<Rightarrow> string list" where
  "str_run ft r = (case r of (i, w, t) \<Rightarrow> [str_int i, str_bool w, str_float ft t])"

definition write_csv :: "float_text \<Rightarrow> string option \<Rightarrow> run list \<Rightarrow> ('x, 'u, unit) action" where
  "write_csv ft csv_file all_runs =
     (case csv_file of
        None \<Rightarrow> (\<lambda>s. Inr ((), s))
      | Some path \<Rightarrow>
          then_do (open_w path) (\<lambda>_ s.
            let s1 = file_write path (join '','' csv_header @ ''\<newline>'') s
            in Inr ((), fold (\<lambda>r. file_write path (join '','' (str_run ft r) @ ''\<newline>''))
                          all_runs s1)))"

text \<open>Lines 59 to 67: the table on standard output.\<close>

definition cols_header :: "string \<Rightarrow> string \<Rightarrow> string \<Rightarrow> string \<Rightarrow> string" where
  "cols_header a b c d =
     format_str 14 None a @ format_str 14 None b @ format_str 14 (Some 8) c
       @ format_str 14 (Some 8) d"

definition cols_row :: "float_text \<Rightarrow> string \<Rightarrow> int \<Rightarrow> real \<Rightarrow> real \<Rightarrow> string" where
  "cols_row ft a b c d =
     format_str 14 None a @ format_int 14 b @ format_float_8 ft 14 c @ format_float_8 ft 14 d"

definition print_stats :: "float_text \<Rightarrow> bool \<Rightarrow> real list \<Rightarrow> ('x, 'u, unit) action" where
  "print_stats ft is_warmup timings s =
     (case mean timings of
        Inl e \<Rightarrow> Inl (e, s)
      | Inr m \<Rightarrow>
         (case variance timings of
            Inl e \<Rightarrow> Inl (e, s)
          | Inr v \<Rightarrow>
             Inr ((), py_print (cols_row ft (str_bool is_warmup) (int (length timings)) m v) s)))"

definition print_table :: "float_text \<Rightarrow> run list \<Rightarrow> run list \<Rightarrow> ('x, 'u, unit) action" where
  "print_table ft warmup_runs execution_runs =
     (let warmup_times = map (\<lambda>(_, _, t). t) warmup_runs;
          execution_times = map (\<lambda>(_, _, t). t) execution_runs
      in then_do (\<lambda>s. Inr ((), py_print (cols_header ''is_warmup'' ''rounds'' ''mean'' ''variance'') s))
           (\<lambda>_.
         then_do (if length warmup_times > 1 then print_stats ft True warmup_times
                  else (\<lambda>s. Inr ((), s))) (\<lambda>_.
         (if length execution_times > 1 then print_stats ft False execution_times
          else (\<lambda>s. Inr ((), s))))))"

definition wrapper ::
  "float_text \<Rightarrow> int \<Rightarrow> int \<Rightarrow> bool \<Rightarrow> string option \<Rightarrow> ('x, 'u) callable \<Rightarrow> ('x, 'u, unit) action" where
  "wrapper ft warmups iter verbose csv_file func =
     then_do (execute_runs ft warmups iter verbose func) (\<lambda>(warmup_runs, execution_runs).
       let all_runs = warmup_runs @ execution_runs
       in then_do (write_csv ft csv_file all_runs) (\<lambda>_.
            print_table ft warmup_runs execution_runs))"

text \<open>The decorator factory: \<^verbatim>\<open>benchmark(...)(fun)\<close> is the wrapper.\<close>

definition benchmark ::
  "float_text \<Rightarrow> int \<Rightarrow> int \<Rightarrow> bool \<Rightarrow> string option \<Rightarrow> ('x, 'u) callable \<Rightarrow> ('x, 'u, unit) action" where
  "benchmark ft warmups iter verbose csv_file func = wrapper ft warmups iter verbose csv_file func"

subsection \<open>What the wrapper is expected to leave behind\<close>

text \<open>
  The text of the csv file as the specification describes it: the header row, then one row
  \<^verbatim>\<open><sequence_number>,<True|False>,<duration>\<close> per run record.
\<close>

definition csv_row :: "float_text \<Rightarrow> run \<Rightarrow> string" where
  "csv_row ft r =
     (case r of (i, w, t) \<Rightarrow> str_int i @ '','' @ (if w then ''True'' else ''False'') @ '',''
                              @ str_float ft t)"

definition csv_text :: "float_text \<Rightarrow> run list \<Rightarrow> string" where
  "csv_text ft rs =
     ''run num,is warmup,timing\<newline>'' @ concat (map (\<lambda>r. csv_row ft r @ ''\<newline>'') rs)"

text \<open>Reading a text back: its lines, without the terminating newlines.\<close>

fun file_lines :: "string \<Rightarrow> string list" where
  "file_lines [] = []"
| "file_lines (c # cs) =
     (if c = CHR ''\<newline>'' then [] # file_lines cs
      else (case file_lines cs of [] \<Rightarrow> [[c]] | l # ls \<Rightarrow> (c # l) # ls))"

text \<open>
  The statistics table: the header, then a row for each phase with at least two records.
\<close>

definition table_rows :: "float_text \<Rightarrow> bool \<Rightarrow> run list \<Rightarrow> string list" where
  "table_rows ft is_warmup rs =
     (let ts = map (\<lambda>(_, _, t). t) rs
      in if 2 \<le> length rs
         then [cols_row ft (str_bool is_warmup) (int (length rs)) (mean_value ts) (variance_value ts)]
         else [])"

definition table_header :: string where
  "table_header = ''     is_warmup        rounds          mean      variance''"

definition table_lines :: "float_text \<Rightarrow> run list \<Rightarrow> run list \<Rightarrow> string list" where
  "table_lines ft warmup_runs execution_runs =
     table_header # table_rows ft True warmup_runs @ table_rows ft False execution_runs"

text \<open>A line is a row of a phase when its first column, 14 wide, holds the phase's flag.\<close>

definition phase_row :: "bool \<Rightarrow> string \<Rightarrow> bool" where
  "phase_row is_warmup line = (take 14 line = rjust 14 (str_bool is_warmup))"

text \<open>Whether the csv step can open its file, and the world it leaves when it can.\<close>

definition can_write :: "string option \<Rightarrow> 'u world \<Rightarrow> bool" where
  "can_write csv_file s = (case csv_file of None \<Rightarrow> True | Some path \<Rightarrow> writable s path)"

definition csv_written :: "float_text \<Rightarrow> string option \<Rightarrow> run list \<Rightarrow> 'u world \<Rightarrow> 'u world" where
  "csv_written ft csv_file rs s =
     (case csv_file of None \<Rightarrow> s | Some path \<Rightarrow> s\<lparr>files := (files s)(path \<mapsto> csv_text ft rs)\<rparr>)"

subsection \<open>The driver\<close>

text \<open>
  \<^verbatim>\<open>experiment\<close> (here \<open>experiment_fn\<close>) starts \<^verbatim>\<open>n_threads\<close> threads, each of which runs
  \<^verbatim>\<open>repeat_function\<close>, a loop of \<^verbatim>\<open>n_runs\<close> calls of \<^verbatim>\<open>f\<close>, and joins them. A thread is modelled by the number of
  iterations its loop still has to make. As long as a thread has iterations left, the
  scheduler (the next choice of the world's \<open>schedule\<close>) picks one such thread, which makes
  its next call of \<^verbatim>\<open>f\<close>; a call of \<^verbatim>\<open>f\<close> is one step. An exception of \<^verbatim>\<open>f\<close> ends the thread
  that made the call and nothing else: it does not reach \<^verbatim>\<open>join\<close>. Every interleaving of the
  threads' calls is the run of some schedule.

  Two things are kept that the program does not keep, so that the calls of the workload can
  be counted whatever the workload is: the list \<open>calls\<close> records which thread made each
  call, in order, and the field \<open>invocations\<close> of the world is set, after every call of
  \<^verbatim>\<open>f\<close>, to one more than it was before the call, whatever \<^verbatim>\<open>f\<close> did to it.
\<close>

definition active :: "nat list \<Rightarrow> nat list" where
  "active pending = filter (\<lambda>i. 0 < pending ! i) [0..<length pending]"

definition next_thread :: "nat list \<Rightarrow> 'u world \<Rightarrow> nat" where
  "next_thread pending s =
     active pending ! (schedule s (schedule_pos s) mod length (active pending))"

function run_threads ::
  "('x, 'u) callable \<Rightarrow> nat list \<Rightarrow> nat list \<Rightarrow> 'u world \<Rightarrow> nat list \<times> 'u world" where
  "run_threads f pending calls s =
     (if active pending = [] then (calls, s)
      else
        let i = next_thread pending s;
            s1 = s\<lparr>schedule_pos := Suc (schedule_pos s)\<rparr>
        in (case f s1 of
              Inr (_, s2) \<Rightarrow>
                run_threads f (pending[i := pending ! i - 1]) (calls @ [i])
                  (s2\<lparr>invocations := Suc (invocations s)\<rparr>)
            | Inl (_, s2) \<Rightarrow>
                run_threads f (pending[i := 0]) (calls @ [i])
                  (s2\<lparr>invocations := Suc (invocations s)\<rparr>)))"
  by pat_completeness auto
termination
proof (relation "measure (\<lambda>(f, pending, calls, s). sum_list pending)", goal_cases)
  case 1
  show ?case by simp
next
  case (2 f pending calls s i)
  from 2(1) have "next_thread pending s \<in> set (active pending)"
    unfolding next_thread_def by (intro nth_mem) simp
  with 2(2) have b: "i < length pending" "0 < pending ! i" by (auto simp: active_def)
  then have "pending ! i \<le> sum_list pending" by (simp add: member_le_sum_list)
  with b have "sum_list (pending[i := 0]) < sum_list pending"
    by (simp add: sum_list_update)
  then show ?case by simp
next
  case (3 f pending calls s i)
  from 3(1) have "next_thread pending s \<in> set (active pending)"
    unfolding next_thread_def by (intro nth_mem) simp
  with 3(2) have b: "i < length pending" "0 < pending ! i" by (auto simp: active_def)
  then have "pending ! i \<le> sum_list pending" by (simp add: member_le_sum_list)
  with b have "sum_list (pending[i := pending ! i - 1]) < sum_list pending"
    by (simp add: sum_list_update)
  then show ?case by simp
qed

declare run_threads.simps [simp del]

definition experiment_fn :: "('x, 'u) callable \<Rightarrow> int \<Rightarrow> int \<Rightarrow> ('x, 'u) callable" where
  "experiment_fn f n_threads n_runs s =
     (let repeat_function = length (py_range n_runs);
          threads = map (\<lambda>_. repeat_function) (py_range n_threads)
      in case run_threads f threads [] s of (calls, s') \<Rightarrow> Inr ((), s'))"

definition run_threaded ::
  "float_text \<Rightarrow> ('x, 'u) callable \<Rightarrow> int \<Rightarrow> int \<Rightarrow> int \<Rightarrow> ('x, 'u, unit) action" where
  "run_threaded ft f test_iterations n_threads n_runs =
     benchmark ft 0 test_iterations True
       (Some (''f_'' @ str_int n_threads @ ''_'' @ str_int n_runs @ ''.csv''))
       (experiment_fn f n_threads n_runs)"

text \<open>\<^verbatim>\<open>test(f, test_iterations)\<close>; the string \<open>f_name\<close> is \<^verbatim>\<open>f.__name__\<close>.\<close>

definition test :: "float_text \<Rightarrow> string \<Rightarrow> ('x, 'u) callable \<Rightarrow> int \<Rightarrow> ('x, 'u, unit) action" where
  "test ft f_name f test_iterations =
     then_do (\<lambda>s. Inr ((), py_print (''Testing the function '' @ f_name
                                       @ '' with 1 thread and 16 runs.'') s)) (\<lambda>_.
     then_do (run_threaded ft f test_iterations 1 16) (\<lambda>_.
     then_do (\<lambda>s. Inr ((), py_print (''Testing the function '' @ f_name
                                       @ '' with 2 threads and 8 runs.'') s)) (\<lambda>_.
     then_do (run_threaded ft f test_iterations 2 8) (\<lambda>_.
     then_do (\<lambda>s. Inr ((), py_print (''Testing the function '' @ f_name
                                       @ '' with 4 threads and 4 runs.'') s)) (\<lambda>_.
     then_do (run_threaded ft f test_iterations 4 4) (\<lambda>_.
     then_do (\<lambda>s. Inr ((), py_print (''Testing the function '' @ f_name
                                       @ '' with 8 threads and 2 runs.'') s)) (\<lambda>_.
     run_threaded ft f test_iterations 8 2)))))))"

text \<open>What the driver is expected to print for one configuration.\<close>

definition verbose_line :: "float_text \<Rightarrow> string \<Rightarrow> int \<Rightarrow> run \<Rightarrow> string" where
  "verbose_line ft title n r =
     (case r of (i, _, t) \<Rightarrow>
        title @ '' '' @ str_int i @ ''/'' @ str_int n @ '': '' @ format_float_8 ft 14 t @ '' s'')"

definition configuration_output :: "float_text \<Rightarrow> string \<Rightarrow> int \<Rightarrow> run list \<Rightarrow> string list" where
  "configuration_output ft banner test_iterations er =
     banner # map (verbose_line ft ''Execution round'' test_iterations) er @ table_lines ft [] er"

subsection \<open>Example inputs\<close>

text \<open>Concrete inputs, on which the theorems below are instantiated.\<close>

definition example_text :: float_text where
  "example_text = \<lparr>str_float = (\<lambda>_. ''0.5''), format_8 = (\<lambda>_. ''0.5'')\<rparr>"

definition example_world :: "nat world" where
  "example_world = \<lparr>stdout = [], files = Map.empty, writable = (\<lambda>_. True), clock = real,
     clock_reads = 0, schedule = (\<lambda>n. n), schedule_pos = 0, invocations = 0, user = 0\<rparr>"

text \<open>A callable that counts its calls in the \<open>user\<close> field.\<close>

definition counting :: "(unit, nat) callable" where
  "counting s = Inr ((), s\<lparr>user := Suc (user s)\<rparr>)"

text \<open>A workload that computes and leaves the world as it is, as \<^verbatim>\<open>fib\<close> does.\<close>

definition pure_workload :: "(unit, nat) callable" where
  "pure_workload s = Inr ((), s)"

text \<open>A callable that counts its calls and raises at the third.\<close>

definition failing_third :: "(string, nat) callable" where
  "failing_third s =
     (if user s = 2 then Inl (''boom'', s\<lparr>user := 3\<rparr>) else Inr ((), s\<lparr>user := Suc (user s)\<rparr>))"

section \<open>Properties\<close>

subsection \<open>Sequencing and the run loop\<close>

lemma then_do_Inr: "m s = Inr (v, s') \<Longrightarrow> then_do m f s = f v s'"
  by (simp add: then_do_def)

lemma then_do_Inl: "m s = Inl x \<Longrightarrow> then_do m f s = Inl x"
  by (simp add: then_do_def)

lemma runs_loop_append:
  "runs_loop ft func verbose n w title (is1 @ is2) runs s =
     (case runs_loop ft func verbose n w title is1 runs s of
        Inl x \<Rightarrow> Inl x
      | Inr (rs, s') \<Rightarrow> runs_loop ft func verbose n w title is2 rs s')"
  by (induction is1 arbitrary: runs s)
     (auto simp: Let_def split: prod.splits sum.splits)

lemma runs_loop_records:
  "runs_loop ft func verbose n w title js runs s = Inr (rs, s') \<Longrightarrow>
   \<exists>ts. length ts = length js \<and> rs = runs @ map (\<lambda>(i, t). (i + 1, w, t)) (zip js ts)"
proof (induction js arbitrary: runs s)
  case Nil
  then show ?case by simp
next
  case (Cons i js)
  obtain t1 s1 where p1: "perf_counter s = (t1, s1)" by (cases "perf_counter s")
  from Cons.prems p1 obtain s2 where f: "func s1 = Inr ((), s2)"
    by (cases "func s1") (auto split: prod.splits)
  obtain t2 s3 where p2: "perf_counter s2 = (t2, s3)" by (cases "perf_counter s2")
  define s4 where "s4 = (if verbose
      then py_print (title @ '' '' @ str_int (i + 1) @ ''/'' @ str_int n @ '': ''
                       @ format_float_8 ft 14 (t2 - t1) @ '' s'') s3 else s3)"
  from Cons.prems p1 f p2
  have "runs_loop ft func verbose n w title js (runs @ [(i + 1, w, t2 - t1)]) s4 = Inr (rs, s')"
    by (simp add: Let_def s4_def)
  from Cons.IH [OF this] obtain ts where
    ts: "length ts = length js"
        "rs = (runs @ [(i + 1, w, t2 - t1)]) @ map (\<lambda>(i, t). (i + 1, w, t)) (zip js ts)"
    by blast
  show ?case
    by (rule exI [of _ "(t2 - t1) # ts"]) (simp add: ts)
qed

lemma runs_loop_returns:
  assumes "\<forall>s. \<exists>s'. func s = Inr ((), s')"
  shows "\<exists>rs s'. runs_loop ft func verbose n w title js runs s = Inr (rs, s')"
proof (induction js arbitrary: runs s)
  case Nil
  show ?case by simp
next
  case (Cons i js)
  obtain t1 s1 where p1: "perf_counter s = (t1, s1)" by (cases "perf_counter s")
  from assms obtain s2 where f: "func s1 = Inr ((), s2)" by blast
  obtain t2 s3 where p2: "perf_counter s2 = (t2, s3)" by (cases "perf_counter s2")
  show ?case using Cons.IH by (simp add: p1 f p2 Let_def)
qed

lemma map_Suc_upto: "map (\<lambda>i. i + 1) [a..b] = [a + 1..b + 1]"
proof (induction a b rule: upto.induct)
  case (1 i j)
  show ?case
  proof (cases "i \<le> j")
    case True
    with 1 show ?thesis by (simp add: upto_rec1 [of i j] upto_rec1 [of "i + 1" "j + 1"])
  next
    case False
    then show ?thesis by simp
  qed
qed

lemma py_range_shift: "map (\<lambda>i. i + 1) (py_range n) = [1..n]"
  using map_Suc_upto [of 0 "n - 1"] by (simp add: py_range_def)

lemma length_py_range: "length (py_range n) = nat n"
  by (simp add: py_range_def)

lemma start_runs_records:
  assumes "start_runs ft func verbose n w title s = Inr (rs, s')"
  shows "length rs = nat n \<and> map fst rs = [1..n] \<and> map (fst \<circ> snd) rs = replicate (nat n) w"
proof -
  from assms obtain ts where ts: "length ts = length (py_range n)"
    and rs: "rs = map (\<lambda>(i, t). (i + 1, w, t)) (zip (py_range n) ts)"
    using runs_loop_records [of ft func verbose n w title "py_range n" "[]" s rs s']
    by (auto simp: start_runs_def)
  have "map fst rs = map (\<lambda>i. i + 1) (map fst (zip (py_range n) ts))"
    by (simp add: rs comp_def case_prod_beta)
  also have "\<dots> = [1..n]"
    using ts by (simp add: py_range_shift)
  finally have a: "map fst rs = [1..n]" .
  have b: "length rs = nat n"
    using ts by (simp add: rs length_py_range)
  have "map (fst \<circ> snd) rs = map (\<lambda>_. w) (zip (py_range n) ts)"
    by (simp add: rs comp_def case_prod_beta)
  also have "\<dots> = replicate (nat n) w"
    using ts by (simp add: map_replicate_const length_py_range)
  finally show ?thesis using a b by simp
qed

lemma start_runs_returns:
  "\<forall>s. \<exists>s'. func s = Inr ((), s') \<Longrightarrow>
   \<exists>rs s'. start_runs ft func verbose n w title s = Inr (rs, s')"
  by (simp add: start_runs_def runs_loop_returns)

lemma execute_runs_Inr:
  "execute_runs ft warmups iter verbose func s = Inr ((wr, er), s') \<longleftrightarrow>
   (\<exists>s1. start_runs ft func verbose warmups True ''Warmup round'' s = Inr (wr, s1) \<and>
         start_runs ft func verbose iter False ''Execution round'' s1 = Inr (er, s'))"
  by (auto simp: execute_runs_def then_do_def split: sum.splits prod.splits)

lemma execute_runs_returns:
  assumes "\<forall>s. \<exists>s'. func s = Inr ((), s')"
  shows "\<exists>wr er s'. execute_runs ft warmups iter verbose func s = Inr ((wr, er), s')"
proof -
  from start_runs_returns [OF assms] obtain wr s1 where
    "start_runs ft func verbose warmups True ''Warmup round'' s = Inr (wr, s1)" by blast
  moreover from start_runs_returns [OF assms] obtain er s2 where
    "start_runs ft func verbose iter False ''Execution round'' s1 = Inr (er, s2)" by blast
  ultimately show ?thesis by (auto simp: execute_runs_Inr)
qed

lemma execute_runs_records:
  assumes "execute_runs ft warmups iter verbose func s = Inr ((wr, er), s')"
  shows "length wr = nat warmups" "length er = nat iter"
    "map fst wr = [1..warmups]" "map fst er = [1..iter]"
    "map (fst \<circ> snd) wr = replicate (nat warmups) True"
    "map (fst \<circ> snd) er = replicate (nat iter) False"
  using assms start_runs_records [of ft func verbose warmups True "''Warmup round''"]
    start_runs_records [of ft func verbose iter False "''Execution round''"]
  by (auto simp: execute_runs_Inr)

lemma runs_loop_stdout:
  assumes "\<forall>s. stdout (outcome_world (func s)) = stdout s"
  shows "runs_loop ft func verbose n b title js runs s = Inr (rs, s') \<Longrightarrow>
     \<exists>new. rs = runs @ new
        \<and> stdout s' = stdout s @ (if verbose then map (verbose_line ft title n) new else [])"
proof (induction js arbitrary: runs s)
  case Nil
  then show ?case by simp
next
  case (Cons i js)
  obtain t1 s1 where p1: "perf_counter s = (t1, s1)" by (cases "perf_counter s")
  from Cons.prems p1 obtain s2 where f: "func s1 = Inr ((), s2)"
    by (cases "func s1") (auto split: prod.splits)
  from assms have "stdout (outcome_world (func s1)) = stdout s1" by blast
  with f have o2: "stdout s2 = stdout s1" by (simp add: outcome_world_def)
  obtain t2 s3 where p2: "perf_counter s2 = (t2, s3)" by (cases "perf_counter s2")
  define r where "r = (i + 1, b, t2 - t1)"
  define s4 where "s4 = (if verbose
      then py_print (title @ '' '' @ str_int (i + 1) @ ''/'' @ str_int n @ '': ''
                       @ format_float_8 ft 14 (t2 - t1) @ '' s'') s3 else s3)"
  have o1: "stdout s1 = stdout s" and o3: "stdout s3 = stdout s2"
    using p1 p2 by (auto simp: perf_counter_def)
  have o4: "stdout s4 = stdout s @ (if verbose then [verbose_line ft title n r] else [])"
    using o1 o2 o3 by (simp add: s4_def py_print_def verbose_line_def r_def)
  from Cons.prems p1 f p2
  have "runs_loop ft func verbose n b title js (runs @ [r]) s4 = Inr (rs, s')"
    by (simp add: Let_def s4_def r_def)
  from Cons.IH [OF this] obtain new where
    "rs = (runs @ [r]) @ new"
    "stdout s' = stdout s4 @ (if verbose then map (verbose_line ft title n) new else [])"
    by blast
  with o4 have "rs = runs @ (r # new)
      \<and> stdout s' = stdout s @ (if verbose then map (verbose_line ft title n) (r # new) else [])"
    by simp
  then show ?case by blast
qed

lemma start_runs_stdout:
  assumes "\<forall>s. stdout (outcome_world (func s)) = stdout s"
    and "start_runs ft func verbose n b title s = Inr (rs, s')"
  shows "stdout s' = stdout s @ (if verbose then map (verbose_line ft title n) rs else [])"
  using runs_loop_stdout [OF assms(1), of ft verbose n b title "py_range n" "[]" s rs s'] assms(2)
  by (auto simp: start_runs_def)

text \<open>
  C1: for warmup count \<open>w \<ge> 0\<close> and iteration count \<open>k \<ge> 0\<close>, and a callable that returns
  at every call, one invocation produces exactly \<open>w + k\<close> run records: the first \<open>w\<close> are
  marked as warmup and the remaining \<open>k\<close> are not, the warmup records are numbered
  \<open>1, \<dots>, w\<close> and the measured ones, independently, \<open>1, \<dots>, k\<close>. Every warmup record is
  produced before every measured one: the warmup phase runs first, from the initial world,
  and the measured phase starts in the world in which the warmup phase ended; with
  \<^verbatim>\<open>verbose\<close> set (and a callable that does not print) the lines of the warmup rounds are
  printed before those of the execution rounds; and \<^verbatim>\<open>all_runs\<close>, which the wrapper hands to
  the csv step, lists the warmup records first.
\<close>

theorem run_records_per_phase:
  assumes "0 \<le> w" and "0 \<le> k" and "\<forall>s. \<exists>s'. func s = Inr ((), s')"
  shows "\<exists>wr er s1 s'.
           start_runs ft func verbose w True ''Warmup round'' s = Inr (wr, s1)
           \<and> start_runs ft func verbose k False ''Execution round'' s1 = Inr (er, s')
           \<and> execute_runs ft w k verbose func s = Inr ((wr, er), s')
           \<and> wrapper ft w k verbose csv_file func s
               = then_do (write_csv ft csv_file (wr @ er)) (\<lambda>_. print_table ft wr er) s'
           \<and> length (wr @ er) = nat (w + k)
           \<and> map (fst \<circ> snd) (wr @ er) = replicate (nat w) True @ replicate (nat k) False
           \<and> map fst (wr @ er) = [1..w] @ [1..k]
           \<and> (verbose \<and> (\<forall>s. stdout (outcome_world (func s)) = stdout s)
                \<longrightarrow> stdout s' = stdout s @ map (verbose_line ft ''Warmup round'' w) wr
                                           @ map (verbose_line ft ''Execution round'' k) er)"
proof -
  from execute_runs_returns [OF assms(3)] obtain wr er s' where
    r: "execute_runs ft w k verbose func s = Inr ((wr, er), s')" by blast
  then obtain s1 where
    a: "start_runs ft func verbose w True ''Warmup round'' s = Inr (wr, s1)"
    and b: "start_runs ft func verbose k False ''Execution round'' s1 = Inr (er, s')"
    by (auto simp: execute_runs_Inr)
  have c: "wrapper ft w k verbose csv_file func s
      = then_do (write_csv ft csv_file (wr @ er)) (\<lambda>_. print_table ft wr er) s'"
    using r by (simp add: wrapper_def then_do_def)
  have d: "length (wr @ er) = nat (w + k)"
    using execute_runs_records(1,2) [OF r] assms(1,2) by (simp add: nat_add_distrib)
  have e: "map (fst \<circ> snd) (wr @ er) = replicate (nat w) True @ replicate (nat k) False"
    using execute_runs_records(5,6) [OF r] by simp
  have f: "map fst (wr @ er) = [1..w] @ [1..k]"
    using execute_runs_records(3,4) [OF r] by simp
  have g: "stdout s' = stdout s @ map (verbose_line ft ''Warmup round'' w) wr
                                           @ map (verbose_line ft ''Execution round'' k) er"
    if "verbose \<and> (\<forall>s. stdout (outcome_world (func s)) = stdout s)"
    using that start_runs_stdout [OF _ a] start_runs_stdout [OF _ b] by simp
  from a b r c d e f g show ?thesis by blast
qed

theorem run_records_per_phase_witness:
  "(0::int) \<le> 2 \<and> (0::int) \<le> 3 \<and> (\<forall>s. \<exists>s'. counting s = Inr ((), s'))
   \<and> (\<forall>s. stdout (outcome_world (counting s)) = stdout s)
   \<and> (\<exists>wr er s1 s'.
         start_runs example_text counting True 2 True ''Warmup round'' example_world
           = Inr (wr, s1)
         \<and> start_runs example_text counting True 3 False ''Execution round'' s1 = Inr (er, s')
         \<and> execute_runs example_text 2 3 True counting example_world = Inr ((wr, er), s')
         \<and> length (wr @ er) = 5
         \<and> map (fst \<circ> snd) (wr @ er) = [True, True, False, False, False]
         \<and> map fst (wr @ er) = [1, 2, 1, 2, 3]
         \<and> stdout s' = [''Warmup round 1/2:            0.5 s'',
                        ''Warmup round 2/2:            0.5 s'',
                        ''Execution round 1/3:            0.5 s'',
                        ''Execution round 2/3:            0.5 s'',
                        ''Execution round 3/3:            0.5 s''])"
proof -
  have c: "\<forall>s. \<exists>s'. counting s = Inr ((), s')" by (simp add: counting_def)
  have c2: "\<forall>s. stdout (outcome_world (counting s)) = stdout s"
    by (simp add: counting_def outcome_world_def)
  have z: "(0::int) \<le> 2" "(0::int) \<le> 3" by simp_all
  have u: "[1..2] = [1, 2]" "[1..3] = [1, 2, 3]" by (simp_all add: upto.simps)
  have v: "replicate (nat 2) True = [True, True]" "replicate (nat 3) False = [False, False, False]"
    by (simp_all add: numeral_2_eq_2 numeral_3_eq_3)
  have d: "str_int 1 = ''1''" "str_int 2 = ''2''" "str_int 3 = ''3''"
    by (simp_all add: str_int_def str_nat.simps digit_def)
  have vl: "verbose_line example_text title n r
      = title @ '' '' @ str_int (fst r) @ ''/'' @ str_int n @ '':            0.5 s''"
    for title n r
    by (cases r)
       (simp add: verbose_line_def format_float_8_def example_text_def rjust_def numeral_eq_Suc)
  have ml: "map (verbose_line example_text title n) rs
      = map (\<lambda>i. title @ '' '' @ str_int i @ ''/'' @ str_int n @ '':            0.5 s'')
          (map fst rs)" for title n rs
    by (simp add: vl comp_def)
  from run_records_per_phase [OF z c, of example_text True example_world None]
  obtain wr er s1 s' where
    a: "start_runs example_text counting True 2 True ''Warmup round'' example_world
          = Inr (wr, s1)"
    and b: "start_runs example_text counting True 3 False ''Execution round'' s1 = Inr (er, s')"
    and r: "execute_runs example_text 2 3 True counting example_world = Inr ((wr, er), s')"
    and l: "length (wr @ er) = nat (2 + 3)"
    and e: "map (fst \<circ> snd) (wr @ er) = replicate (nat 2) True @ replicate (nat 3) False"
    and f: "map fst (wr @ er) = [1..2] @ [1..3]"
    and g: "True \<and> (\<forall>s. stdout (outcome_world (counting s)) = stdout s)
              \<longrightarrow> stdout s' = stdout example_world
                    @ map (verbose_line example_text ''Warmup round'' 2) wr
                    @ map (verbose_line example_text ''Execution round'' 3) er"
    by blast
  from execute_runs_records(3,4) [OF r] have mf: "map fst wr = [1, 2]" "map fst er = [1, 2, 3]"
    by (simp_all add: u)
  from g c2 have "stdout s' = stdout example_world
                    @ map (verbose_line example_text ''Warmup round'' 2) wr
                    @ map (verbose_line example_text ''Execution round'' 3) er"
    by blast
  then have o: "stdout s' = [''Warmup round 1/2:            0.5 s'',
                        ''Warmup round 2/2:            0.5 s'',
                        ''Execution round 1/3:            0.5 s'',
                        ''Execution round 2/3:            0.5 s'',
                        ''Execution round 3/3:            0.5 s'']"
    by (simp add: ml mf d example_world_def)
  have l': "length (wr @ er) = 5" using l by simp
  have e': "map (fst \<circ> snd) (wr @ er) = [True, True, False, False, False]"
    using e by (simp only: v) simp
  have f': "map fst (wr @ er) = [1, 2, 1, 2, 3]" using f by (simp only: u) simp
  have "\<exists>wr er s1 s'.
         start_runs example_text counting True 2 True ''Warmup round'' example_world
           = Inr (wr, s1)
         \<and> start_runs example_text counting True 3 False ''Execution round'' s1 = Inr (er, s')
         \<and> execute_runs example_text 2 3 True counting example_world = Inr ((wr, er), s')
         \<and> length (wr @ er) = 5
         \<and> map (fst \<circ> snd) (wr @ er) = [True, True, False, False, False]
         \<and> map fst (wr @ er) = [1, 2, 1, 2, 3]
         \<and> stdout s' = [''Warmup round 1/2:            0.5 s'',
                        ''Warmup round 2/2:            0.5 s'',
                        ''Execution round 1/3:            0.5 s'',
                        ''Execution round 2/3:            0.5 s'',
                        ''Execution round 3/3:            0.5 s'']"
  proof (intro exI)
    show "start_runs example_text counting True 2 True ''Warmup round'' example_world
           = Inr (wr, s1)
         \<and> start_runs example_text counting True 3 False ''Execution round'' s1 = Inr (er, s')
         \<and> execute_runs example_text 2 3 True counting example_world = Inr ((wr, er), s')
         \<and> length (wr @ er) = 5
         \<and> map (fst \<circ> snd) (wr @ er) = [True, True, False, False, False]
         \<and> map fst (wr @ er) = [1, 2, 1, 2, 3]
         \<and> stdout s' = [''Warmup round 1/2:            0.5 s'',
                        ''Warmup round 2/2:            0.5 s'',
                        ''Execution round 1/3:            0.5 s'',
                        ''Execution round 2/3:            0.5 s'',
                        ''Execution round 3/3:            0.5 s'']"
      by (intro conjI a b r l' e' f' o)
  qed
  then show ?thesis by (intro conjI z c c2)
qed

subsection \<open>The csv file\<close>

lemma file_lines_line:
  "CHR ''\<newline>'' \<notin> set l \<Longrightarrow> file_lines (l @ CHR ''\<newline>'' # rest) = l # file_lines rest"
  by (induction l) auto

lemma file_lines_concat:
  "\<forall>l\<in>set ls. CHR ''\<newline>'' \<notin> set l \<Longrightarrow>
   file_lines (concat (map (\<lambda>l. l @ ''\<newline>'') ls)) = ls"
  by (induction ls) (auto simp: file_lines_line)

lemma newline_digit: "d < 10 \<Longrightarrow> digit d \<noteq> CHR ''\<newline>''"
proof -
  assume "d < 10"
  then have "d \<in> {0, 1, 2, 3, 4, 5, 6, 7, 8, 9}" by auto
  then show ?thesis by (auto simp: digit_def)
qed

lemma newline_str_nat: "CHR ''\<newline>'' \<notin> set (str_nat n)"
proof (induction n rule: str_nat.induct)
  case (1 n)
  show ?case
  proof (cases "n < 10")
    case True
    then show ?thesis using newline_digit [of n] by (subst str_nat.simps) auto
  next
    case False
    have "n mod 10 < 10" by simp
    from newline_digit [OF this] 1 False show ?thesis
      by (subst str_nat.simps) auto
  qed
qed

lemma newline_str_int: "CHR ''\<newline>'' \<notin> set (str_int i)"
  by (simp add: str_int_def newline_str_nat)

lemma newline_csv_row:
  "\<forall>t. CHR ''\<newline>'' \<notin> set (str_float ft t) \<Longrightarrow> CHR ''\<newline>'' \<notin> set (csv_row ft r)"
  by (cases r) (simp add: csv_row_def newline_str_int)

lemma file_lines_csv_text:
  assumes "\<forall>t. CHR ''\<newline>'' \<notin> set (str_float ft t)"
  shows "file_lines (csv_text ft rs) = ''run num,is warmup,timing'' # map (csv_row ft) rs"
proof -
  have "csv_text ft rs
      = concat (map (\<lambda>l. l @ ''\<newline>'') (''run num,is warmup,timing'' # map (csv_row ft) rs))"
    by (simp add: csv_text_def comp_def)
  moreover have "\<forall>l\<in>set (''run num,is warmup,timing'' # map (csv_row ft) rs).
      CHR ''\<newline>'' \<notin> set l"
    using newline_csv_row [OF assms] by auto
  ultimately show ?thesis by (simp only: file_lines_concat)
qed

lemma join_str_run: "join '','' (str_run ft r) = csv_row ft r"
  by (cases r) (simp add: str_run_def csv_row_def str_bool_def)

lemma fold_file_write:
  "files s path = Some c \<Longrightarrow>
   fold (\<lambda>r. file_write path (g r)) rs s
     = s\<lparr>files := (files s)(path \<mapsto> c @ concat (map g rs))\<rparr>"
proof (induction rs arbitrary: s c)
  case Nil
  then show ?case by (simp add: fun_upd_idem)
next
  case (Cons r rs)
  define s1 where "s1 = file_write path (g r) s"
  have f: "files s1 path = Some (c @ g r)"
    using Cons.prems by (simp add: s1_def file_write_def)
  have u: "s1\<lparr>files := (files s1)(path \<mapsto> x)\<rparr> = s\<lparr>files := (files s)(path \<mapsto> x)\<rparr>" for x
    by (simp add: s1_def file_write_def)
  have "fold (\<lambda>r. file_write path (g r)) (r # rs) s = fold (\<lambda>r. file_write path (g r)) rs s1"
    by (simp add: s1_def)
  also have "\<dots> = s1\<lparr>files := (files s1)(path \<mapsto> (c @ g r) @ concat (map g rs))\<rparr>"
    by (rule Cons.IH [OF f])
  also have "\<dots> = s\<lparr>files := (files s)(path \<mapsto> (c @ g r) @ concat (map g rs))\<rparr>"
    by (rule u)
  also have "(c @ g r) @ concat (map g rs) = c @ concat (map g (r # rs))"
    by simp
  finally show ?case .
qed

lemma write_csv_None: "write_csv ft None rs s = Inr ((), s)"
  by (simp add: write_csv_def)

lemma write_csv_Some:
  "write_csv ft (Some path) rs s =
     (if writable s path then Inr ((), s\<lparr>files := (files s)(path \<mapsto> csv_text ft rs)\<rparr>)
      else Inl (OS_error, s))"
proof (cases "writable s path")
  case True
  define s0 where "s0 = s\<lparr>files := (files s)(path \<mapsto> [])\<rparr>"
  define s1 where "s1 = file_write path (join '','' csv_header @ ''\<newline>'') s0"
  have f1: "files s1 path = Some ''run num,is warmup,timing\<newline>''"
    by (simp add: s1_def s0_def file_write_def csv_header_def)
  have "write_csv ft (Some path) rs s
      = Inr ((), fold (\<lambda>r. file_write path (join '','' (str_run ft r) @ ''\<newline>'')) rs s1)"
    using True by (simp add: write_csv_def then_do_def open_w_def s1_def s0_def Let_def)
  also have "fold (\<lambda>r. file_write path (join '','' (str_run ft r) @ ''\<newline>'')) rs s1
      = s1\<lparr>files := (files s1)(path \<mapsto> csv_text ft rs)\<rparr>"
    by (simp add: fold_file_write [OF f1] csv_text_def join_str_run)
  also have "\<dots> = s\<lparr>files := (files s)(path \<mapsto> csv_text ft rs)\<rparr>"
    by (simp add: s1_def s0_def file_write_def)
  finally show ?thesis using True by simp
next
  case False
  then show ?thesis by (simp add: write_csv_def then_do_def open_w_def)
qed

subsection \<open>The statistics table\<close>

lemma cols_header_text:
  "cols_header ''is_warmup'' ''rounds'' ''mean'' ''variance'' = table_header"
  by (simp add: cols_header_def format_str_def rjust_def table_header_def numeral_eq_Suc)

lemma print_stats_two:
  "2 \<le> length ts \<Longrightarrow>
   print_stats ft b ts s
     = Inr ((), py_print (cols_row ft (str_bool b) (int (length ts)) (mean_value ts)
                            (variance_value ts)) s)"
  by (cases ts) (auto simp: print_stats_def mean_def variance_def)

lemma print_table_lines:
  "print_table ft wr er s = Inr ((), s\<lparr>stdout := stdout s @ table_lines ft wr er\<rparr>)"
  by (cases "2 \<le> length wr"; cases "2 \<le> length er")
     (simp_all add: print_table_def then_do_def cols_header_text print_stats_two table_lines_def
        table_rows_def py_print_def Let_def)

lemma phase_row_cols_row: "phase_row b (cols_row ft (str_bool c) n m v) \<longleftrightarrow> b = c"
  by (cases b; cases c)
     (simp_all add: phase_row_def cols_row_def format_str_def rjust_def str_bool_def
        numeral_eq_Suc)

lemma phase_row_header: "\<not> phase_row b table_header"
  by (cases b) (simp_all add: phase_row_def table_header_def rjust_def str_bool_def numeral_eq_Suc)

lemma phase_row_table_rows:
  "(\<exists>l\<in>set (table_rows ft c rs). phase_row b l) \<longleftrightarrow> b = c \<and> 2 \<le> length rs"
  by (auto simp: table_rows_def phase_row_cols_row Let_def)

lemma phase_row_table_lines:
  "(\<exists>l\<in>set (table_lines ft wr er). phase_row True l) \<longleftrightarrow> 2 \<le> length wr"
  "(\<exists>l\<in>set (table_lines ft wr er). phase_row False l) \<longleftrightarrow> 2 \<le> length er"
  using phase_row_table_rows [of ft True wr True] phase_row_table_rows [of ft False er True]
    phase_row_table_rows [of ft True wr False] phase_row_table_rows [of ft False er False]
  by (auto simp: table_lines_def phase_row_header)

subsection \<open>The wrapper as a whole\<close>

lemma write_csv_effect:
  "write_csv ft csv_file rs s =
     (if can_write csv_file s then Inr ((), csv_written ft csv_file rs s) else Inl (OS_error, s))"
  by (cases csv_file) (simp_all add: can_write_def csv_written_def write_csv_None write_csv_Some)

lemma wrapper_after_runs:
  assumes "execute_runs ft w k verbose func s = Inr ((wr, er), s2)"
  shows "wrapper ft w k verbose csv_file func s =
     (if can_write csv_file s2
      then Inr ((), (csv_written ft csv_file (wr @ er) s2)
                  \<lparr>stdout := stdout s2 @ table_lines ft wr er\<rparr>)
      else Inl (OS_error, s2))"
  using assms
  by (cases csv_file)
     (simp_all add: wrapper_def then_do_def print_table_lines write_csv_effect csv_written_def)

lemma wrapper_failed_runs:
  assumes "execute_runs ft w k verbose func s = Inl x"
  shows "wrapper ft w k verbose csv_file func s = Inl x"
  using assms by (simp add: wrapper_def then_do_def)

lemma wrapper_Inr:
  assumes "wrapper ft w k verbose csv_file func s = Inr ((), s')"
  shows "\<exists>wr er s2. execute_runs ft w k verbose func s = Inr ((wr, er), s2)
           \<and> can_write csv_file s2
           \<and> s' = (csv_written ft csv_file (wr @ er) s2)
                     \<lparr>stdout := stdout s2 @ table_lines ft wr er\<rparr>"
proof (cases "execute_runs ft w k verbose func s")
  case (Inl x)
  from wrapper_failed_runs [OF this] assms show ?thesis by simp
next
  case (Inr r)
  obtain wr er s2 where r: "r = ((wr, er), s2)" by (metis surj_pair)
  from Inr r have e: "execute_runs ft w k verbose func s = Inr ((wr, er), s2)" by simp
  have "can_write csv_file s2"
    using assms by (simp add: wrapper_after_runs [OF e] split: if_splits)
  moreover from this have "s' = (csv_written ft csv_file (wr @ er) s2)
                     \<lparr>stdout := stdout s2 @ table_lines ft wr er\<rparr>"
    using assms by (simp add: wrapper_after_runs [OF e])
  ultimately show ?thesis using e by blast
qed

text \<open>
  C2: with an output path given, once all runs have completed (and the path can be opened
  for writing) the wrapper returns and leaves at that path a file whose first line is the
  header \<^verbatim>\<open>run num,is warmup,timing\<close>, followed by one row per run record, warmup records
  first and then the measured ones, in execution order; a row is the sequence number,
  \<^verbatim>\<open>True\<close> or \<^verbatim>\<open>False\<close>, and the duration, separated by commas. The file has
  \<open>1 + warmup_count + iteration_count\<close> lines.
\<close>

theorem csv_file_contents:
  assumes "0 \<le> w" and "0 \<le> k"
    and "execute_runs ft w k verbose func s = Inr ((wr, er), s2)"
    and "writable s2 path"
    and "\<forall>t. CHR ''\<newline>'' \<notin> set (str_float ft t)"
  shows "\<exists>s' text. wrapper ft w k verbose (Some path) func s = Inr ((), s')
           \<and> files s' path = Some text
           \<and> file_lines text
               = ''run num,is warmup,timing''
                 # map (\<lambda>(i, b, t). str_int i @ '','' @ (if b then ''True'' else ''False'') @ '',''
                                       @ str_float ft t) (wr @ er)
           \<and> int (length (file_lines text)) = 1 + w + k"
proof -
  define s' where "s' = (csv_written ft (Some path) (wr @ er) s2)
                     \<lparr>stdout := stdout s2 @ table_lines ft wr er\<rparr>"
  have r: "wrapper ft w k verbose (Some path) func s = Inr ((), s')"
    using assms(4) by (simp add: wrapper_after_runs [OF assms(3)] can_write_def s'_def)
  have f: "files s' path = Some (csv_text ft (wr @ er))"
    by (simp add: s'_def csv_written_def)
  have c: "csv_row ft = (\<lambda>(i, b, t). str_int i @ '','' @ (if b then ''True'' else ''False'')
                                       @ '','' @ str_float ft t)"
    by (rule ext) (simp add: csv_row_def)
  have l: "file_lines (csv_text ft (wr @ er))
      = ''run num,is warmup,timing''
          # map (\<lambda>(i, b, t). str_int i @ '','' @ (if b then ''True'' else ''False'') @ '',''
                                @ str_float ft t) (wr @ er)"
    using file_lines_csv_text [OF assms(5), of "wr @ er"] by (simp only: c)
  have n: "int (length (file_lines (csv_text ft (wr @ er)))) = 1 + w + k"
    using execute_runs_records(1,2) [OF assms(3)] assms(1,2)
    by (simp add: file_lines_csv_text [OF assms(5)])
  from r f l n show ?thesis by blast
qed

theorem csv_file_contents_witness:
  "(0::int) \<le> 1 \<and> (0::int) \<le> 2
   \<and> (\<exists>wr er s2. execute_runs example_text 1 2 False counting example_world = Inr ((wr, er), s2)
         \<and> writable s2 ''out.csv'')
   \<and> (\<forall>t. CHR ''\<newline>'' \<notin> set (str_float example_text t))
   \<and> (\<exists>s'. wrapper example_text 1 2 False (Some ''out.csv'') counting example_world = Inr ((), s')
         \<and> (\<exists>text. files s' ''out.csv'' = Some text
               \<and> file_lines text
                    = [''run num,is warmup,timing'', ''1,True,0.5'', ''1,False,0.5'',
                       ''2,False,0.5'']
               \<and> int (length (file_lines text)) = 1 + 1 + 2))"
proof -
  let ?s2 = "example_world\<lparr>clock_reads := 6, user := 3\<rparr>"
  let ?wr = "[(1, True, 1)] :: run list"
  let ?er = "[(1, False, 1), (2, False, 1)] :: run list"
  have e: "execute_runs example_text 1 2 False counting example_world = Inr ((?wr, ?er), ?s2)"
    by (simp add: execute_runs_def then_do_def start_runs_def py_range_def upto.simps
          perf_counter_def counting_def example_world_def Let_def)
  have w: "writable ?s2 ''out.csv''" by (simp add: example_world_def)
  have n: "\<forall>t. CHR ''\<newline>'' \<notin> set (str_float example_text t)"
    by (simp add: example_text_def)
  have d: "str_int 1 = ''1''" "str_int 2 = ''2''"
    by (simp_all add: str_int_def str_nat.simps digit_def)
  from csv_file_contents [OF _ _ e w n] e w n show ?thesis
    by (simp add: d example_text_def)
qed

text \<open>
  C3: once the runs have completed and the csv step can open its file, the table that the
  wrapper prints has a row for a phase if and only if that phase has at least two run
  records: besides the header it holds a warmup row exactly when \<open>warmup_count \<ge> 2\<close> and a
  measured row exactly when \<open>iteration_count \<ge> 2\<close>. With \<open>warmup_count = 1\<close> and
  \<open>iteration_count = 3\<close> there is a measured row and no warmup row.
\<close>

theorem table_row_iff_two_records:
  assumes "0 \<le> w" and "0 \<le> k"
    and "execute_runs ft w k verbose func s = Inr ((wr, er), s2)"
    and "\<forall>path. csv_file = Some path \<longrightarrow> writable s2 path"
  shows "\<exists>s' tab. wrapper ft w k verbose csv_file func s = Inr ((), s')
           \<and> stdout s' = stdout s2 @ tab
           \<and> ((\<exists>l\<in>set tab. phase_row True l) \<longleftrightarrow> 2 \<le> w)
           \<and> ((\<exists>l\<in>set tab. phase_row False l) \<longleftrightarrow> 2 \<le> k)
           \<and> length tab = 1 + (if 2 \<le> w then 1 else 0) + (if 2 \<le> k then 1 else 0)"
proof -
  define s' where "s' = (csv_written ft csv_file (wr @ er) s2)
                     \<lparr>stdout := stdout s2 @ table_lines ft wr er\<rparr>"
  have cw: "can_write csv_file s2"
    using assms(4) by (cases csv_file) (simp_all add: can_write_def)
  have r: "wrapper ft w k verbose csv_file func s = Inr ((), s')"
    using cw by (simp add: wrapper_after_runs [OF assms(3)] s'_def)
  have o: "stdout s' = stdout s2 @ table_lines ft wr er"
    by (simp add: s'_def)
  have lw: "2 \<le> length wr \<longleftrightarrow> 2 \<le> w" and lk: "2 \<le> length er \<longleftrightarrow> 2 \<le> k"
    using execute_runs_records(1,2) [OF assms(3)] assms(1,2) by auto
  have a: "(\<exists>l\<in>set (table_lines ft wr er). phase_row True l) \<longleftrightarrow> 2 \<le> w"
    using phase_row_table_lines(1) [of ft wr er] lw by simp
  have b: "(\<exists>l\<in>set (table_lines ft wr er). phase_row False l) \<longleftrightarrow> 2 \<le> k"
    using phase_row_table_lines(2) [of ft wr er] lk by simp
  have c: "length (table_lines ft wr er)
      = 1 + (if 2 \<le> w then 1 else 0) + (if 2 \<le> k then 1 else 0)"
    using lw lk by (simp add: table_lines_def table_rows_def Let_def)
  from r o a b c show ?thesis by blast
qed

theorem table_row_iff_two_records_witness:
  "(0::int) \<le> 1 \<and> (0::int) \<le> 3
   \<and> (\<exists>wr er s2. execute_runs example_text 1 3 False counting example_world = Inr ((wr, er), s2)
         \<and> (\<forall>path. (None :: string option) = Some path \<longrightarrow> writable s2 path)
         \<and> (\<exists>s' tab. wrapper example_text 1 3 False None counting example_world = Inr ((), s')
               \<and> stdout s' = stdout s2 @ tab
               \<and> \<not> (\<exists>l\<in>set tab. phase_row True l)
               \<and> (\<exists>l\<in>set tab. phase_row False l)
               \<and> length tab = 2))"
proof -
  have c: "\<forall>s. \<exists>s'. counting s = Inr ((), s')" by (simp add: counting_def)
  from execute_runs_returns [OF c] obtain wr er s2 where
    e: "execute_runs example_text 1 3 False counting example_world = Inr ((wr, er), s2)"
    by blast
  have n: "\<forall>path. (None :: string option) = Some path \<longrightarrow> writable s2 path" by simp
  have z: "(0::int) \<le> 1" "(0::int) \<le> 3" by simp_all
  from table_row_iff_two_records [OF z e n] obtain s' tab where
    "wrapper example_text 1 3 False None counting example_world = Inr ((), s')"
    "stdout s' = stdout s2 @ tab"
    "(\<exists>l\<in>set tab. phase_row True l) \<longleftrightarrow> (2::int) \<le> 1"
    "(\<exists>l\<in>set tab. phase_row False l) \<longleftrightarrow> (2::int) \<le> 3"
    "length tab = 1 + (if (2::int) \<le> 1 then 1 else 0) + (if (2::int) \<le> 3 then 1 else 0)"
    by blast
  then have "wrapper example_text 1 3 False None counting example_world = Inr ((), s')
      \<and> stdout s' = stdout s2 @ tab \<and> \<not> (\<exists>l\<in>set tab. phase_row True l)
      \<and> (\<exists>l\<in>set tab. phase_row False l) \<and> length tab = 2"
    by simp
  with e n z show ?thesis by blast
qed

text \<open>
  C9: whenever the runs have completed and the csv step can open its file, the wrapper
  prints the header line with the column titles \<^verbatim>\<open>is_warmup\<close>, \<^verbatim>\<open>rounds\<close>, \<^verbatim>\<open>mean\<close>,
  \<^verbatim>\<open>variance\<close>, whatever the number of records; when neither phase has two records (as
  with \<open>warmup_count = 0\<close> and \<open>iteration_count = 1\<close>) nothing follows the header.
\<close>

theorem table_header_always_printed:
  assumes "execute_runs ft w k verbose func s = Inr ((wr, er), s2)"
    and "\<forall>path. csv_file = Some path \<longrightarrow> writable s2 path"
  shows "\<exists>s' rows. wrapper ft w k verbose csv_file func s = Inr ((), s')
           \<and> stdout s' = stdout s2
                 @ ''     is_warmup        rounds          mean      variance'' # rows
           \<and> (w < 2 \<and> k < 2 \<longrightarrow> rows = [])"
proof -
  define s' where "s' = (csv_written ft csv_file (wr @ er) s2)
                     \<lparr>stdout := stdout s2 @ table_lines ft wr er\<rparr>"
  define rows where "rows = table_rows ft True wr @ table_rows ft False er"
  have cw: "can_write csv_file s2"
    using assms(2) by (cases csv_file) (simp_all add: can_write_def)
  have r: "wrapper ft w k verbose csv_file func s = Inr ((), s')"
    using cw by (simp add: wrapper_after_runs [OF assms(1)] s'_def)
  have o: "stdout s' = stdout s2
      @ ''     is_warmup        rounds          mean      variance'' # rows"
    by (simp add: s'_def table_lines_def rows_def table_header_def)
  have "rows = []" if "w < 2 \<and> k < 2"
    using that execute_runs_records(1,2) [OF assms(1)]
    by (auto simp: rows_def table_rows_def Let_def)
  with r o show ?thesis by blast
qed

theorem table_header_always_printed_witness:
  "\<exists>wr er s2. execute_runs example_text 0 1 False counting example_world = Inr ((wr, er), s2)
     \<and> (\<forall>path. (None :: string option) = Some path \<longrightarrow> writable s2 path)
     \<and> (\<exists>s'. wrapper example_text 0 1 False None counting example_world = Inr ((), s')
           \<and> stdout s' = stdout s2
                 @ [''     is_warmup        rounds          mean      variance''])"
proof -
  have c: "\<forall>s. \<exists>s'. counting s = Inr ((), s')" by (simp add: counting_def)
  from execute_runs_returns [OF c] obtain wr er s2 where
    e: "execute_runs example_text 0 1 False counting example_world = Inr ((wr, er), s2)"
    by blast
  have n: "\<forall>path. (None :: string option) = Some path \<longrightarrow> writable s2 path" by simp
  from table_header_always_printed [OF e n] e show ?thesis
    by simp
qed

subsection \<open>Exceptions of the callable\<close>

lemma runs_loop_Inl:
  "runs_loop ft func verbose n b title js runs s = Inl (x, s') \<Longrightarrow>
   \<exists>e s0. x = Callable_raised e \<and> func s0 = Inl (e, s')"
proof (induction js arbitrary: runs s)
  case Nil
  then show ?case by simp
next
  case (Cons i js)
  obtain t1 s1 where p1: "perf_counter s = (t1, s1)" by (cases "perf_counter s")
  show ?case
  proof (cases "func s1")
    case (Inl a)
    then obtain e s2 where a: "func s1 = Inl (e, s2)" by (cases a) simp
    with Cons.prems p1 have "x = Callable_raised e" "s' = s2" by simp_all
    with a show ?thesis by blast
  next
    case (Inr a)
    then obtain s2 where a: "func s1 = Inr ((), s2)" by (cases a) simp
    obtain t2 s3 where p2: "perf_counter s2 = (t2, s3)" by (cases "perf_counter s2")
    define s4 where "s4 = (if verbose
      then py_print (title @ '' '' @ str_int (i + 1) @ ''/'' @ str_int n @ '': ''
                       @ format_float_8 ft 14 (t2 - t1) @ '' s'') s3 else s3)"
    from Cons.prems p1 a p2
    have "runs_loop ft func verbose n b title js (runs @ [(i + 1, b, t2 - t1)]) s4 = Inl (x, s')"
      by (simp add: Let_def s4_def)
    from Cons.IH [OF this] show ?thesis .
  qed
qed

lemma runs_loop_frame:
  fixes g :: "'u world \<Rightarrow> 'a"
  assumes clk: "\<And>s. g (snd (perf_counter s)) = g s"
    and prt: "\<And>l s. g (py_print l s) = g s"
    and fr: "\<And>s. g (outcome_world (func s)) = g s"
  shows "g (outcome_world (runs_loop ft func verbose n b title js runs s)) = g s"
proof (induction js arbitrary: runs s)
  case Nil
  show ?case by (simp add: outcome_world_def)
next
  case (Cons i js)
  obtain t1 s1 where p1: "perf_counter s = (t1, s1)" by (cases "perf_counter s")
  with clk [of s] have g1: "g s1 = g s" by simp
  show ?case
  proof (cases "func s1")
    case (Inl a)
    then obtain e s2 where a: "func s1 = Inl (e, s2)" by (cases a) simp
    with fr [of s1] have "g s2 = g s1" by (simp add: outcome_world_def)
    with a p1 g1 show ?thesis by (simp add: outcome_world_def)
  next
    case (Inr a)
    then obtain s2 where a: "func s1 = Inr ((), s2)" by (cases a) simp
    with fr [of s1] have g2: "g s2 = g s1" by (simp add: outcome_world_def)
    obtain t2 s3 where p2: "perf_counter s2 = (t2, s3)" by (cases "perf_counter s2")
    with clk [of s2] have g3: "g s3 = g s2" by simp
    define s4 where "s4 = (if verbose
      then py_print (title @ '' '' @ str_int (i + 1) @ ''/'' @ str_int n @ '': ''
                       @ format_float_8 ft 14 (t2 - t1) @ '' s'') s3 else s3)"
    have g4: "g s4 = g s3" by (simp add: s4_def prt)
    have "runs_loop ft func verbose n b title (i # js) runs s
        = runs_loop ft func verbose n b title js (runs @ [(i + 1, b, t2 - t1)]) s4"
      using p1 a p2 by (simp add: Let_def s4_def)
    with Cons.IH [of "runs @ [(i + 1, b, t2 - t1)]" s4] g4 g3 g2 g1 show ?thesis by simp
  qed
qed

lemma execute_runs_frame:
  fixes g :: "'u world \<Rightarrow> 'a"
  assumes clk: "\<And>s. g (snd (perf_counter s)) = g s"
    and prt: "\<And>l s. g (py_print l s) = g s"
    and fr: "\<And>s. g (outcome_world (func s)) = g s"
  shows "g (outcome_world (execute_runs ft w k verbose func s)) = g s"
proof (cases "start_runs ft func verbose w True ''Warmup round'' s")
  case (Inl a)
  then obtain x s1 where a: "start_runs ft func verbose w True ''Warmup round'' s = Inl (x, s1)"
    by (cases a) simp
  with runs_loop_frame [of g func ft verbose w True "''Warmup round''" "py_range w" "[]" s,
      OF clk prt fr]
  have "g s1 = g s" by (simp add: start_runs_def outcome_world_def)
  with a show ?thesis by (simp add: execute_runs_def then_do_def outcome_world_def)
next
  case (Inr a)
  then obtain wr s1 where a: "start_runs ft func verbose w True ''Warmup round'' s = Inr (wr, s1)"
    by (cases a) simp
  with runs_loop_frame [of g func ft verbose w True "''Warmup round''" "py_range w" "[]" s,
      OF clk prt fr]
  have g1: "g s1 = g s" by (simp add: start_runs_def outcome_world_def)
  have "g (outcome_world (start_runs ft func verbose k False ''Execution round'' s1)) = g s1"
    unfolding start_runs_def by (rule runs_loop_frame [OF clk prt fr])
  with a g1 show ?thesis
    by (auto simp: execute_runs_def then_do_def outcome_world_def split: sum.splits)
qed

lemma execute_runs_Inl:
  assumes "execute_runs ft w k verbose func s = Inl (x, s')"
  shows "\<exists>e s0. x = Callable_raised e \<and> func s0 = Inl (e, s')"
proof (cases "start_runs ft func verbose w True ''Warmup round'' s")
  case (Inl a)
  with assms have "runs_loop ft func verbose w True ''Warmup round'' (py_range w) [] s = Inl (x, s')"
    by (simp add: execute_runs_def then_do_def start_runs_def)
  then show ?thesis by (rule runs_loop_Inl)
next
  case (Inr a)
  then obtain wr s1 where "start_runs ft func verbose w True ''Warmup round'' s = Inr (wr, s1)"
    by (cases a) simp
  with assms
  have "runs_loop ft func verbose k False ''Execution round'' (py_range k) [] s1 = Inl (x, s')"
    by (auto simp: execute_runs_def then_do_def start_runs_def split: sum.splits prod.splits)
  then show ?thesis by (rule runs_loop_Inl)
qed

lemma py_range_split: "0 \<le> j \<Longrightarrow> j < n \<Longrightarrow> py_range n = py_range j @ j # [j + 1..n - 1]"
  using upto_split3 [of 0 j "n - 1"] by (simp add: py_range_def)

lemma start_runs_raises:
  assumes "0 \<le> j" and "j < n"
    and "runs_loop ft func verbose n b title (py_range j) [] s = Inr (rs, s1)"
    and "func (snd (perf_counter s1)) = Inl (e, s2)"
  shows "start_runs ft func verbose n b title s = Inl (Callable_raised e, s2)"
proof -
  obtain t1 s1' where p: "perf_counter s1 = (t1, s1')" by (cases "perf_counter s1")
  with assms(4) have "func s1' = Inl (e, s2)" by simp
  with p have "runs_loop ft func verbose n b title (j # [j + 1..n - 1]) rs s1
      = Inl (Callable_raised e, s2)" by simp
  with assms(3) show ?thesis
    by (simp add: start_runs_def py_range_split [OF assms(1,2)] runs_loop_append)
qed

lemma perf_counter_frame:
  "stdout (snd (perf_counter s)) = stdout s" "files (snd (perf_counter s)) = files s"
  "writable (snd (perf_counter s)) = writable s" "user (snd (perf_counter s)) = user s"
  "invocations (snd (perf_counter s)) = invocations s"
  by (simp_all add: perf_counter_def)

lemma py_print_frame:
  "files (py_print l s) = files s" "writable (py_print l s) = writable s"
  "user (py_print l s) = user s" "invocations (py_print l s) = invocations s"
  by (simp_all add: py_print_def)

lemma wrapper_returns:
  assumes ret: "\<forall>s. \<exists>s'. func s = Inr ((), s')"
    and fr: "\<And>s. writable (outcome_world (func s)) = writable s"
    and wr: "\<forall>path. csv_file = Some path \<longrightarrow> writable s path"
  shows "\<exists>s'. wrapper ft w k verbose csv_file func s = Inr ((), s') \<and> writable s' = writable s"
proof -
  from execute_runs_returns [OF ret] obtain wr er s2 where
    e: "execute_runs ft w k verbose func s = Inr ((wr, er), s2)" by blast
  have "writable (outcome_world (execute_runs ft w k verbose func s)) = writable s"
    by (rule execute_runs_frame [of writable, OF perf_counter_frame(3) py_print_frame(2) fr])
  with e have w2: "writable s2 = writable s" by (simp add: outcome_world_def)
  with wr have cw: "can_write csv_file s2"
    by (cases csv_file) (simp_all add: can_write_def)
  have "writable ((csv_written ft csv_file (wr @ er) s2)
                  \<lparr>stdout := stdout s2 @ table_lines ft wr er\<rparr>) = writable s2"
    by (cases csv_file) (simp_all add: csv_written_def)
  with cw w2 show ?thesis by (simp add: wrapper_after_runs [OF e])
qed

lemma failing_third_example:
  "wrapper example_text 1 3 False csv_file failing_third example_world
     = Inl (Callable_raised ''boom'', example_world\<lparr>clock_reads := 5, user := 3\<rparr>)"
  by (simp add: wrapper_def execute_runs_def then_do_def start_runs_def py_range_def upto.simps
        perf_counter_def failing_third_def example_world_def Let_def)

text \<open>
  C7: if the callable raises during a run, in the warmup phase or in the measured phase,
  the wrapper raises that same exception to its caller, in the very world in which the
  callable raised it: no further run is executed, no file is written and no table printed.
\<close>

theorem callable_exception_propagates:
  "(0 \<le> j \<and> j < w
      \<and> runs_loop ft func verbose w True ''Warmup round'' (py_range j) [] s = Inr (rs, s1)
      \<and> func (snd (perf_counter s1)) = Inl (e, s2)
     \<longrightarrow> wrapper ft w k verbose csv_file func s = Inl (Callable_raised e, s2))
   \<and> (start_runs ft func verbose w True ''Warmup round'' s = Inr (wr, sw)
      \<and> 0 \<le> j \<and> j < k
      \<and> runs_loop ft func verbose k False ''Execution round'' (py_range j) [] sw = Inr (rs, s1)
      \<and> func (snd (perf_counter s1)) = Inl (e, s2)
     \<longrightarrow> wrapper ft w k verbose csv_file func s = Inl (Callable_raised e, s2))"
proof (intro conjI impI)
  assume a: "0 \<le> j \<and> j < w
      \<and> runs_loop ft func verbose w True ''Warmup round'' (py_range j) [] s = Inr (rs, s1)
      \<and> func (snd (perf_counter s1)) = Inl (e, s2)"
  then have "start_runs ft func verbose w True ''Warmup round'' s = Inl (Callable_raised e, s2)"
    using start_runs_raises [of j w ft func verbose True "''Warmup round''" s rs s1 e s2] by simp
  then have "execute_runs ft w k verbose func s = Inl (Callable_raised e, s2)"
    by (simp add: execute_runs_def then_do_def)
  then show "wrapper ft w k verbose csv_file func s = Inl (Callable_raised e, s2)"
    by (rule wrapper_failed_runs)
next
  assume a: "start_runs ft func verbose w True ''Warmup round'' s = Inr (wr, sw)
      \<and> 0 \<le> j \<and> j < k
      \<and> runs_loop ft func verbose k False ''Execution round'' (py_range j) [] sw = Inr (rs, s1)
      \<and> func (snd (perf_counter s1)) = Inl (e, s2)"
  then have "start_runs ft func verbose k False ''Execution round'' sw
      = Inl (Callable_raised e, s2)"
    using start_runs_raises [of j k ft func verbose False "''Execution round''" sw rs s1 e s2]
    by simp
  with a have "execute_runs ft w k verbose func s = Inl (Callable_raised e, s2)"
    by (simp add: execute_runs_def then_do_def)
  then show "wrapper ft w k verbose csv_file func s = Inl (Callable_raised e, s2)"
    by (rule wrapper_failed_runs)
qed

theorem callable_exception_propagates_witness:
  "start_runs example_text failing_third False 1 True ''Warmup round'' example_world
     = Inr ([(1, True, 1)], example_world\<lparr>clock_reads := 2, user := 1\<rparr>)
   \<and> (0::int) \<le> 1 \<and> (1::int) < 3
   \<and> runs_loop example_text failing_third False 3 False ''Execution round'' (py_range 1) []
        (example_world\<lparr>clock_reads := 2, user := 1\<rparr>)
       = Inr ([(1, False, 1)], example_world\<lparr>clock_reads := 4, user := 2\<rparr>)
   \<and> failing_third (snd (perf_counter (example_world\<lparr>clock_reads := 4, user := 2\<rparr>)))
       = Inl (''boom'', example_world\<lparr>clock_reads := 5, user := 3\<rparr>)
   \<and> wrapper example_text 1 3 False (Some ''out.csv'') failing_third example_world
       = Inl (Callable_raised ''boom'', example_world\<lparr>clock_reads := 5, user := 3\<rparr>)
   \<and> user (example_world\<lparr>clock_reads := 5, user := 3\<rparr>) = 3
   \<and> files (example_world\<lparr>clock_reads := 5, user := 3\<rparr>) ''out.csv'' = None
   \<and> stdout (example_world\<lparr>clock_reads := 5, user := 3\<rparr>) = []"
proof -
  have a: "start_runs example_text failing_third False 1 True ''Warmup round'' example_world
     = Inr ([(1, True, 1)], example_world\<lparr>clock_reads := 2, user := 1\<rparr>)"
    by (simp add: start_runs_def py_range_def upto.simps perf_counter_def failing_third_def
          example_world_def Let_def)
  have b: "runs_loop example_text failing_third False 3 False ''Execution round'' (py_range 1) []
        (example_world\<lparr>clock_reads := 2, user := 1\<rparr>)
       = Inr ([(1, False, 1)], example_world\<lparr>clock_reads := 4, user := 2\<rparr>)"
    by (simp add: py_range_def upto.simps perf_counter_def failing_third_def
          example_world_def Let_def)
  have c: "failing_third (snd (perf_counter (example_world\<lparr>clock_reads := 4, user := 2\<rparr>)))
       = Inl (''boom'', example_world\<lparr>clock_reads := 5, user := 3\<rparr>)"
    by (simp add: perf_counter_def failing_third_def example_world_def)
  have d: "files (example_world\<lparr>clock_reads := 5, user := 3\<rparr>) ''out.csv'' = None"
    "stdout (example_world\<lparr>clock_reads := 5, user := 3\<rparr>) = []"
    by (simp_all add: example_world_def)
  from callable_exception_propagates [where j = 1 and w = 1 and k = 3 and ft = example_text
      and func = failing_third and verbose = False and rs = "[(1, False, 1)]"
      and ?s1.0 = "example_world\<lparr>clock_reads := 4, user := 2\<rparr>" and e = "''boom''"
      and ?s2.0 = "example_world\<lparr>clock_reads := 5, user := 3\<rparr>"
      and csv_file = "Some ''out.csv''" and s = example_world and wr = "[(1, True, 1)]"
      and sw = "example_world\<lparr>clock_reads := 2, user := 1\<rparr>"]
    a b c d
  show ?thesis by simp
qed

text \<open>
  C10: the csv file is written only after all warmup and measured runs have completed.
  For a callable that leaves the files alone, a wrapper invocation that ends with an
  exception of the callable leaves every file as it was (the output file is neither
  created nor modified, no row is flushed), and an invocation that changes a file is one
  whose runs have all completed.
\<close>

theorem no_file_write_on_exception:
  assumes "\<forall>s. files (outcome_world (func s)) = files s"
  shows "(wrapper ft w k verbose csv_file func s = Inl (Callable_raised e, s')
            \<longrightarrow> files s' = files s)
       \<and> (files (outcome_world (wrapper ft w k verbose csv_file func s)) \<noteq> files s
            \<longrightarrow> (\<exists>wr er s2. execute_runs ft w k verbose func s = Inr ((wr, er), s2)))"
proof -
  have fr: "files (outcome_world (execute_runs ft w k verbose func s)) = files s"
    using assms
    by (intro execute_runs_frame [of files, OF perf_counter_frame(2) py_print_frame(1)]) simp
  show ?thesis
  proof (cases "execute_runs ft w k verbose func s")
    case (Inl a)
    then obtain x s1 where a: "execute_runs ft w k verbose func s = Inl (x, s1)"
      by (cases a) simp
    with fr have "files s1 = files s" by (simp add: outcome_world_def)
    with wrapper_failed_runs [OF a, of csv_file] show ?thesis
      by (auto simp: outcome_world_def)
  next
    case (Inr a)
    then obtain wr er s2 where a: "execute_runs ft w k verbose func s = Inr ((wr, er), s2)"
      by (cases a) auto
    then show ?thesis by (auto simp: wrapper_after_runs [OF a])
  qed
qed

theorem no_file_write_on_exception_witness:
  "(\<forall>s. files (outcome_world (failing_third s)) = files s)
   \<and> wrapper example_text 1 3 False (Some ''out.csv'') failing_third example_world
       = Inl (Callable_raised ''boom'', example_world\<lparr>clock_reads := 5, user := 3\<rparr>)
   \<and> files (example_world\<lparr>clock_reads := 5, user := 3\<rparr>) = files example_world
   \<and> files example_world ''out.csv'' = None"
proof -
  have f: "\<forall>s. files (outcome_world (failing_third s)) = files s"
    by (simp add: failing_third_def outcome_world_def)
  from no_file_write_on_exception [OF f, of example_text 1 3 False "Some ''out.csv''"
      example_world "''boom''" "example_world\<lparr>clock_reads := 5, user := 3\<rparr>"]
    f failing_third_example [of "Some ''out.csv''"]
  show ?thesis by (simp add: example_world_def)
qed

text \<open>
  C6: the statistics step never faults. Whatever the counts, the callable and the world,
  the wrapper never ends with the error of \<^verbatim>\<open>mean\<close> or \<^verbatim>\<open>variance\<close>, because the table
  step applies them only to phases with at least two records and so always returns. With
  \<open>iteration_count = 0\<close> and any warmup count, once the warmup runs have completed and the
  csv step can open its file, the wrapper returns and prints no measured row.
\<close>

theorem statistics_error_unreachable:
  fixes func :: "('x, 'u) callable"
  shows "wrapper ft w k verbose csv_file func s \<noteq> Inl (Statistics_error, s')
       \<and> (\<exists>s''. (print_table ft rs1 rs2 s0 :: ('x error \<times> 'u world) + (unit \<times> 'u world))
                   = Inr ((), s''))
       \<and> (start_runs ft func verbose w True ''Warmup round'' s = Inr (wr, s1)
            \<and> (\<forall>path. csv_file = Some path \<longrightarrow> writable s1 path)
          \<longrightarrow> (\<exists>s'' tab. wrapper ft w 0 verbose csv_file func s = Inr ((), s'')
                 \<and> stdout s'' = stdout s1 @ tab
                 \<and> (\<forall>l\<in>set tab. \<not> phase_row False l)))"
proof (intro conjI impI)
  show "wrapper ft w k verbose csv_file func s \<noteq> Inl (Statistics_error, s')"
  proof (cases "execute_runs ft w k verbose func s")
    case (Inl a)
    then obtain x s1 where a: "execute_runs ft w k verbose func s = Inl (x, s1)"
      by (cases a) simp
    from execute_runs_Inl [OF a] obtain e where "x = Callable_raised e" by blast
    with wrapper_failed_runs [OF a, of csv_file] show ?thesis by simp
  next
    case (Inr a)
    then obtain wr er s2 where a: "execute_runs ft w k verbose func s = Inr ((wr, er), s2)"
      by (cases a) auto
    show ?thesis by (simp add: wrapper_after_runs [OF a])
  qed
next
  show "\<exists>s''. (print_table ft rs1 rs2 s0 :: ('x error \<times> 'u world) + (unit \<times> 'u world))
                   = Inr ((), s'')"
    by (simp add: print_table_lines)
next
  assume a: "start_runs ft func verbose w True ''Warmup round'' s = Inr (wr, s1)
            \<and> (\<forall>path. csv_file = Some path \<longrightarrow> writable s1 path)"
  have "start_runs ft func verbose 0 False ''Execution round'' s1 = Inr ([], s1)"
    by (simp add: start_runs_def py_range_def)
  with a have e: "execute_runs ft w 0 verbose func s = Inr ((wr, []), s1)"
    by (simp add: execute_runs_Inr)
  from a have cw: "can_write csv_file s1"
    by (cases csv_file) (simp_all add: can_write_def)
  define s'' where "s'' = (csv_written ft csv_file (wr @ []) s1)
      \<lparr>stdout := stdout s1 @ table_lines ft wr []\<rparr>"
  have r: "wrapper ft w 0 verbose csv_file func s = Inr ((), s'')"
    using cw by (simp add: wrapper_after_runs [OF e] s''_def)
  have o: "stdout s'' = stdout s1 @ table_lines ft wr []" by (simp add: s''_def)
  have "\<forall>l\<in>set (table_lines ft wr []). \<not> phase_row False l"
    using phase_row_table_lines(2) [of ft wr "[]"] by simp
  with r o show "\<exists>s'' tab. wrapper ft w 0 verbose csv_file func s = Inr ((), s'')
                 \<and> stdout s'' = stdout s1 @ tab
                 \<and> (\<forall>l\<in>set tab. \<not> phase_row False l)"
    by blast
qed

theorem statistics_error_unreachable_witness:
  "\<exists>wr s1. start_runs example_text counting False 2 True ''Warmup round'' example_world
              = Inr (wr, s1)
     \<and> (\<forall>path. (None :: string option) = Some path \<longrightarrow> writable s1 path)
     \<and> (\<exists>s'' tab. wrapper example_text 2 0 False None counting example_world = Inr ((), s'')
           \<and> stdout s'' = stdout s1 @ tab
           \<and> (\<forall>l\<in>set tab. \<not> phase_row False l))"
proof -
  have c: "\<forall>s. \<exists>s'. counting s = Inr ((), s')" by (simp add: counting_def)
  from start_runs_returns [OF c] obtain wr s1 where
    a: "start_runs example_text counting False 2 True ''Warmup round'' example_world
          = Inr (wr, s1)" by blast
  have n: "\<forall>path. (None :: string option) = Some path \<longrightarrow> writable s1 path" by simp
  from statistics_error_unreachable [where func = counting and ft = example_text and w = 2
      and verbose = False and s = example_world and wr = wr and ?s1.0 = s1
      and csv_file = None] a n
  show ?thesis by blast
qed

text \<open>
  C5: invoking the wrapper again with the same output path overwrites the file. After two
  consecutive invocations the file holds the header and the rows of the records of the
  second invocation only, and it has as many lines as after the first invocation.
\<close>

theorem csv_file_overwritten:
  assumes "wrapper ft w k verbose (Some path) func s0 = Inr ((), s1)"
    and "wrapper ft w k verbose (Some path) func s1 = Inr ((), s2)"
    and "\<forall>t. CHR ''\<newline>'' \<notin> set (str_float ft t)"
  shows "\<exists>wr er sr text1. execute_runs ft w k verbose func s1 = Inr ((wr, er), sr)
           \<and> files s2 path = Some (csv_text ft (wr @ er))
           \<and> files s1 path = Some text1
           \<and> length (file_lines (csv_text ft (wr @ er))) = length (file_lines text1)"
proof -
  from wrapper_Inr [OF assms(1)] obtain wr1 er1 sr1 where
    e1: "execute_runs ft w k verbose func s0 = Inr ((wr1, er1), sr1)"
    and s1: "s1 = (csv_written ft (Some path) (wr1 @ er1) sr1)
                    \<lparr>stdout := stdout sr1 @ table_lines ft wr1 er1\<rparr>"
    by blast
  from wrapper_Inr [OF assms(2)] obtain wr er sr where
    e2: "execute_runs ft w k verbose func s1 = Inr ((wr, er), sr)"
    and s2: "s2 = (csv_written ft (Some path) (wr @ er) sr)
                    \<lparr>stdout := stdout sr @ table_lines ft wr er\<rparr>"
    by blast
  have f1: "files s1 path = Some (csv_text ft (wr1 @ er1))"
    by (simp add: s1 csv_written_def)
  have f2: "files s2 path = Some (csv_text ft (wr @ er))"
    by (simp add: s2 csv_written_def)
  have "length (file_lines (csv_text ft (wr @ er)))
      = length (file_lines (csv_text ft (wr1 @ er1)))"
    using execute_runs_records(1,2) [OF e1] execute_runs_records(1,2) [OF e2]
    by (simp add: file_lines_csv_text [OF assms(3)])
  with e2 f1 f2 show ?thesis by blast
qed

theorem csv_file_overwritten_witness:
  "(\<forall>t. CHR ''\<newline>'' \<notin> set (str_float example_text t))
   \<and> (\<exists>s1 s2. wrapper example_text 1 2 False (Some ''out.csv'') counting example_world
                 = Inr ((), s1)
         \<and> wrapper example_text 1 2 False (Some ''out.csv'') counting s1 = Inr ((), s2)
         \<and> (\<exists>wr er sr text1. execute_runs example_text 1 2 False counting s1 = Inr ((wr, er), sr)
               \<and> files s2 ''out.csv'' = Some (csv_text example_text (wr @ er))
               \<and> files s1 ''out.csv'' = Some text1
               \<and> length (file_lines (csv_text example_text (wr @ er)))
                   = length (file_lines text1)))"
proof -
  have c: "\<forall>s. \<exists>s'. counting s = Inr ((), s')" by (simp add: counting_def)
  have f: "writable (outcome_world (counting s)) = writable s" for s
    by (simp add: counting_def outcome_world_def)
  have n: "\<forall>t. CHR ''\<newline>'' \<notin> set (str_float example_text t)"
    by (simp add: example_text_def)
  have w0: "\<forall>path. Some ''out.csv'' = Some path \<longrightarrow> writable example_world path"
    by (simp add: example_world_def)
  from wrapper_returns [OF c f w0] obtain s1 where
    r1: "wrapper example_text 1 2 False (Some ''out.csv'') counting example_world = Inr ((), s1)"
    and w1: "writable s1 = writable example_world" by blast
  from w1 w0 have "\<forall>path. Some ''out.csv'' = Some path \<longrightarrow> writable s1 path" by simp
  from wrapper_returns [OF c f this] obtain s2 where
    r2: "wrapper example_text 1 2 False (Some ''out.csv'') counting s1 = Inr ((), s2)"
    by blast
  from csv_file_overwritten [OF r1 r2 n] r1 r2 n show ?thesis by blast
qed

subsection \<open>The threads of an experiment\<close>

lemma next_thread_active:
  assumes "active pending \<noteq> []"
  shows "next_thread pending s < length pending" and "0 < pending ! next_thread pending s"
proof -
  from assms have "next_thread pending s \<in> set (active pending)"
    unfolding next_thread_def by (intro nth_mem) simp
  then show "next_thread pending s < length pending" and "0 < pending ! next_thread pending s"
    by (auto simp: active_def)
qed

lemma active_Nil: "active pending = [] \<longleftrightarrow> (\<forall>i<length pending. pending ! i = 0)"
  by (auto simp: active_def filter_empty_conv)

lemma sum_list_zero: "(\<forall>i<length xs. xs ! i = (0::nat)) \<Longrightarrow> sum_list xs = 0"
  by (induction xs) (auto simp: nth_Cons split: nat.splits)

lemma sum_list_step:
  "i < length xs \<Longrightarrow> 0 < xs ! i \<Longrightarrow> Suc (sum_list (xs[i := xs ! i - 1])) = sum_list (xs::nat list)"
proof -
  assume a: "i < length xs" "0 < xs ! i"
  then have "xs ! i \<le> sum_list xs" by (simp add: member_le_sum_list)
  with a show ?thesis by (simp add: sum_list_update)
qed

lemma run_threads_done:
  "active pending = [] \<Longrightarrow> run_threads f pending calls s = (calls, s)"
  by (subst run_threads.simps) simp

lemma run_threads_returned:
  assumes "active pending \<noteq> []"
    and "f (s\<lparr>schedule_pos := Suc (schedule_pos s)\<rparr>) = Inr ((), s2)"
  shows "run_threads f pending calls s
     = run_threads f (pending[next_thread pending s := pending ! next_thread pending s - 1])
         (calls @ [next_thread pending s]) (s2\<lparr>invocations := Suc (invocations s)\<rparr>)"
  using assms by (subst run_threads.simps) (simp add: Let_def)

lemma run_threads_raised:
  assumes "active pending \<noteq> []"
    and "f (s\<lparr>schedule_pos := Suc (schedule_pos s)\<rparr>) = Inl (e, s2)"
  shows "run_threads f pending calls s
     = run_threads f (pending[next_thread pending s := 0])
         (calls @ [next_thread pending s]) (s2\<lparr>invocations := Suc (invocations s)\<rparr>)"
  using assms by (subst run_threads.simps) (simp add: Let_def)

lemma run_threads_calls:
  "\<forall>s. \<exists>s'. f s = Inr ((), s') \<Longrightarrow>
     length (fst (run_threads f pending calls s)) = length calls + sum_list pending
       \<and> (\<forall>j. count_list (fst (run_threads f pending calls s)) j
              = count_list calls j + (if j < length pending then pending ! j else 0))
       \<and> invocations (snd (run_threads f pending calls s)) = invocations s + sum_list pending"
proof (induction f pending calls s rule: run_threads.induct)
  case (1 f pending calls s)
  note ret = "1.prems"
  show ?case
  proof (cases "active pending = []")
    case True
    then have z: "\<forall>i<length pending. pending ! i = 0" by (simp add: active_Nil)
    then show ?thesis by (simp add: run_threads_done [OF True] sum_list_zero)
  next
    case False
    define i where "i = next_thread pending s"
    define s1 where "s1 = s\<lparr>schedule_pos := Suc (schedule_pos s)\<rparr>"
    from ret obtain s2 where f: "f s1 = Inr ((), s2)" by blast
    define s3 where "s3 = s2\<lparr>invocations := Suc (invocations s)\<rparr>"
    from next_thread_active [OF False] have il: "i < length pending" and ip: "0 < pending ! i"
      by (simp_all add: i_def)
    have step: "run_threads f pending calls s
        = run_threads f (pending[i := pending ! i - 1]) (calls @ [i]) s3"
      using run_threads_returned [OF False, of f s s2 calls] f
      by (simp add: i_def s1_def s3_def)
    from "1.IH"(2) [OF False i_def s1_def f refl ret]
    have ih: "length (fst (run_threads f (pending[i := pending ! i - 1]) (calls @ [i]) s3))
          = length (calls @ [i]) + sum_list (pending[i := pending ! i - 1])"
      "\<And>j. count_list (fst (run_threads f (pending[i := pending ! i - 1]) (calls @ [i]) s3)) j
          = count_list (calls @ [i]) j
            + (if j < length (pending[i := pending ! i - 1])
               then pending[i := pending ! i - 1] ! j else 0)"
      "invocations (snd (run_threads f (pending[i := pending ! i - 1]) (calls @ [i]) s3))
          = invocations s3 + sum_list (pending[i := pending ! i - 1])"
      by (simp_all add: s3_def)
    have a: "length (fst (run_threads f pending calls s)) = length calls + sum_list pending"
      using ih(1) sum_list_step [OF il ip] by (simp add: step)
    have b: "count_list (fst (run_threads f pending calls s)) j
        = count_list calls j + (if j < length pending then pending ! j else 0)" for j
      using ih(2) [of j] il ip by (cases "j = i") (simp_all add: step)
    have c: "invocations (snd (run_threads f pending calls s)) = invocations s + sum_list pending"
      using ih(3) sum_list_step [OF il ip] by (simp add: step s3_def)
    from a b c show ?thesis by blast
  qed
qed

lemma run_threads_frame:
  "\<forall>s. g (outcome_world (f s)) = g s \<Longrightarrow> \<forall>s n. g (s\<lparr>schedule_pos := n\<rparr>) = g s \<Longrightarrow>
   \<forall>s n. g (s\<lparr>invocations := n\<rparr>) = g s \<Longrightarrow>
     g (snd (run_threads f pending calls s)) = g s"
proof (induction f pending calls s rule: run_threads.induct)
  case (1 f pending calls s)
  note fr = "1.prems"
  show ?case
  proof (cases "active pending = []")
    case True
    show ?thesis by (simp add: run_threads_done [OF True])
  next
    case False
    define i where "i = next_thread pending s"
    define s1 where "s1 = s\<lparr>schedule_pos := Suc (schedule_pos s)\<rparr>"
    have g1: "g s1 = g s" using fr(2) by (simp add: s1_def)
    show ?thesis
    proof (cases "f s1")
      case (Inl a)
      then obtain e s2 where f: "f s1 = Inl (e, s2)" by (cases a) simp
      define s3 where "s3 = s2\<lparr>invocations := Suc (invocations s)\<rparr>"
      from fr(1) have "g (outcome_world (f s1)) = g s1" by blast
      with f have g2: "g s2 = g s1" by (simp add: outcome_world_def)
      have g3: "g s3 = g s2" using fr(3) by (simp add: s3_def)
      have step: "run_threads f pending calls s = run_threads f (pending[i := 0]) (calls @ [i]) s3"
        using run_threads_raised [OF False, of f s e s2 calls] f
        by (simp add: i_def s1_def s3_def)
      from "1.IH"(1) [OF False i_def s1_def f refl fr] g3 g2 g1 show ?thesis
        by (simp add: step s3_def)
    next
      case (Inr a)
      then obtain s2 where f: "f s1 = Inr ((), s2)" by (cases a) simp
      define s3 where "s3 = s2\<lparr>invocations := Suc (invocations s)\<rparr>"
      from fr(1) have "g (outcome_world (f s1)) = g s1" by blast
      with f have g2: "g s2 = g s1" by (simp add: outcome_world_def)
      have g3: "g s3 = g s2" using fr(3) by (simp add: s3_def)
      have step: "run_threads f pending calls s
          = run_threads f (pending[i := pending ! i - 1]) (calls @ [i]) s3"
        using run_threads_returned [OF False, of f s s2 calls] f
        by (simp add: i_def s1_def s3_def)
      from "1.IH"(2) [OF False i_def s1_def f refl fr] g3 g2 g1 show ?thesis
        by (simp add: step s3_def)
    qed
  qed
qed

lemma experiment_threads:
  "map (\<lambda>_. length (py_range n_runs)) (py_range n_threads) = replicate (nat n_threads) (nat n_runs)"
  by (simp add: map_replicate_const length_py_range)

lemma experiment_fn_run_threads:
  "experiment_fn f n_threads n_runs s
     = Inr ((), snd (run_threads f (replicate (nat n_threads) (nat n_runs)) [] s))"
  by (simp add: experiment_fn_def experiment_threads Let_def split: prod.splits)

lemma experiment_fn_invocations:
  assumes "\<forall>s. \<exists>s'. f s = Inr ((), s')"
  shows "\<exists>s'. experiment_fn f n_threads n_runs s = Inr ((), s')
           \<and> invocations s' = invocations s + nat n_threads * nat n_runs"
  using run_threads_calls [OF assms, of "replicate (nat n_threads) (nat n_runs)" "[]" s]
  by (simp add: experiment_fn_run_threads sum_list_replicate)

lemma experiment_fn_frame:
  assumes "\<forall>s. g (outcome_world (f s)) = g s" and "\<forall>s n. g (s\<lparr>schedule_pos := n\<rparr>) = g s"
    and "\<forall>s n. g (s\<lparr>invocations := n\<rparr>) = g s"
  shows "g (outcome_world (experiment_fn f n_threads n_runs s)) = g s"
  using run_threads_frame [OF assms, of "replicate (nat n_threads) (nat n_runs)" "[]" s]
  by (simp add: experiment_fn_run_threads outcome_world_def)

lemma runs_loop_invocations:
  assumes "\<forall>s. \<exists>s'. func s = Inr ((), s') \<and> invocations s' = invocations s + c"
  shows "\<exists>rs s'. runs_loop ft func verbose n b title js runs s = Inr (rs, s')
           \<and> invocations s' = invocations s + length js * c"
proof (induction js arbitrary: runs s)
  case Nil
  show ?case by simp
next
  case (Cons i js)
  obtain t1 s1 where p1: "perf_counter s = (t1, s1)" by (cases "perf_counter s")
  from assms obtain s2 where f: "func s1 = Inr ((), s2)"
    and c2: "invocations s2 = invocations s1 + c" by blast
  obtain t2 s3 where p2: "perf_counter s2 = (t2, s3)" by (cases "perf_counter s2")
  define s4 where "s4 = (if verbose
      then py_print (title @ '' '' @ str_int (i + 1) @ ''/'' @ str_int n @ '': ''
                       @ format_float_8 ft 14 (t2 - t1) @ '' s'') s3 else s3)"
  have u: "invocations s1 = invocations s" "invocations s3 = invocations s2"
    "invocations s4 = invocations s3"
    using p1 p2 perf_counter_frame(5) [of s] perf_counter_frame(5) [of s2]
    by (simp_all add: s4_def py_print_frame)
  have step: "runs_loop ft func verbose n b title (i # js) runs s
      = runs_loop ft func verbose n b title js (runs @ [(i + 1, b, t2 - t1)]) s4"
    using p1 f p2 by (simp add: Let_def s4_def)
  from Cons.IH [of "runs @ [(i + 1, b, t2 - t1)]" s4] c2 u show ?case
    unfolding step by auto
qed

lemma wrapper_invocations:
  assumes "\<forall>s. \<exists>s'. func s = Inr ((), s') \<and> invocations s' = invocations s + c"
  shows "invocations (outcome_world (wrapper ft w k verbose csv_file func s))
     = invocations s + (nat w + nat k) * c"
proof -
  from runs_loop_invocations [OF assms] obtain wr s1 where
    a: "start_runs ft func verbose w True ''Warmup round'' s = Inr (wr, s1)"
    and c1: "invocations s1 = invocations s + nat w * c"
    unfolding start_runs_def by (metis length_py_range)
  from runs_loop_invocations [OF assms] obtain er s2 where
    b: "start_runs ft func verbose k False ''Execution round'' s1 = Inr (er, s2)"
    and c2: "invocations s2 = invocations s1 + nat k * c"
    unfolding start_runs_def by (metis length_py_range)
  from a b have e: "execute_runs ft w k verbose func s = Inr ((wr, er), s2)"
    by (auto simp: execute_runs_Inr)
  have "invocations (outcome_world (wrapper ft w k verbose csv_file func s)) = invocations s2"
    by (cases csv_file)
       (simp_all add: wrapper_after_runs [OF e] outcome_world_def csv_written_def)
  with c1 c2 show ?thesis by (simp add: algebra_simps)
qed

lemma run_threaded_invocations:
  assumes "\<forall>s. \<exists>s'. f s = Inr ((), s')"
  shows "invocations (outcome_world (run_threaded ft f test_iterations n_threads n_runs s))
     = invocations s + nat test_iterations * (nat n_threads * nat n_runs)"
proof -
  have "\<forall>s. \<exists>s'. experiment_fn f n_threads n_runs s = Inr ((), s')
           \<and> invocations s' = invocations s + nat n_threads * nat n_runs"
    using experiment_fn_invocations [OF assms] by blast
  from wrapper_invocations [OF this] show ?thesis
    by (simp add: run_threaded_def benchmark_def)
qed

lemma run_threaded_invocations_Inr:
  assumes "\<forall>s. \<exists>s'. f s = Inr ((), s')"
    and "run_threaded ft f test_iterations n_threads n_runs s = Inr ((), s')"
  shows "invocations s' = invocations s + nat test_iterations * (nat n_threads * nat n_runs)"
  using run_threaded_invocations [OF assms(1), of ft test_iterations n_threads n_runs s] assms(2)
  by (simp add: outcome_world_def)

lemma test_invocations:
  assumes ret: "\<forall>s. \<exists>s'. f s = Inr ((), s')"
    and t: "test ft f_name f test_iterations s = Inr ((), s')"
  shows "invocations s' = invocations s + 4 * (16 * nat test_iterations)"
proof -
  define b1 where "b1 = py_print (''Testing the function '' @ f_name
      @ '' with 1 thread and 16 runs.'') s"
  from t obtain s1 where r1: "run_threaded ft f test_iterations 1 16 b1 = Inr ((), s1)"
    by (auto simp: test_def then_do_def b1_def split: sum.splits)
  define b2 where "b2 = py_print (''Testing the function '' @ f_name
      @ '' with 2 threads and 8 runs.'') s1"
  from t r1 obtain s2 where r2: "run_threaded ft f test_iterations 2 8 b2 = Inr ((), s2)"
    by (auto simp: test_def then_do_def b1_def b2_def split: sum.splits)
  define b3 where "b3 = py_print (''Testing the function '' @ f_name
      @ '' with 4 threads and 4 runs.'') s2"
  from t r1 r2 obtain s3 where r3: "run_threaded ft f test_iterations 4 4 b3 = Inr ((), s3)"
    by (auto simp: test_def then_do_def b1_def b2_def b3_def split: sum.splits)
  define b4 where "b4 = py_print (''Testing the function '' @ f_name
      @ '' with 8 threads and 2 runs.'') s3"
  from t r1 r2 r3 have r4: "run_threaded ft f test_iterations 8 2 b4 = Inr ((), s')"
    by (auto simp: test_def then_do_def b1_def b2_def b3_def b4_def split: sum.splits)
  have u: "invocations b1 = invocations s" "invocations b2 = invocations s1"
    "invocations b3 = invocations s2" "invocations b4 = invocations s3"
    by (simp_all add: b1_def b2_def b3_def b4_def py_print_frame)
  from run_threaded_invocations_Inr [OF ret r1] run_threaded_invocations_Inr [OF ret r2]
    run_threaded_invocations_Inr [OF ret r3] run_threaded_invocations_Inr [OF ret r4] u
  show ?thesis by simp
qed

text \<open>
  C4, in the form that holds of the code: for every workload \<open>f\<close> that returns at every
  call, under every scheduling of the threads, each execution of the task of a
  configuration \<open>(1, 16)\<close>, \<open>(2, 8)\<close>, \<open>(4, 4)\<close> or \<open>(8, 2)\<close> makes exactly 16 calls of \<open>f\<close>, every
  one of its \<open>n_threads\<close> threads making exactly \<open>n_runs\<close> of them. The driver executes the
  task of each configuration \<open>test_iterations\<close> times, so that it makes
  \<open>16 * test_iterations\<close> calls of \<open>f\<close> per configuration, and \<open>4 * 16 * test_iterations\<close> in
  all. The calls are counted by the model: by the list of the calling threads that
  \<open>run_threads\<close> returns and by the field \<open>invocations\<close> of the world.
\<close>

theorem workload_invocations:
  assumes "\<forall>s. \<exists>s'. f s = Inr ((), s')"
    and "(n_threads, n_runs) \<in> set [(1, 16), (2, 8), (4, 4), (8, 2)]"
  shows "(\<exists>calls s'. run_threads f (replicate (nat n_threads) (nat n_runs)) [] s = (calls, s')
            \<and> experiment_fn f n_threads n_runs s = Inr ((), s')
            \<and> length calls = 16
            \<and> (\<forall>i<nat n_threads. count_list calls i = nat n_runs)
            \<and> invocations s' = invocations s + 16)
       \<and> invocations (outcome_world (run_threaded ft f test_iterations n_threads n_runs s))
           = invocations s + 16 * nat test_iterations
       \<and> (test ft f_name f test_iterations s = Inr ((), s'')
            \<longrightarrow> invocations s'' = invocations s + 4 * (16 * nat test_iterations))"
proof -
  from assms(2) have p: "nat n_threads * nat n_runs = 16" by auto
  obtain calls s' where r: "run_threads f (replicate (nat n_threads) (nat n_runs)) [] s = (calls, s')"
    by (cases "run_threads f (replicate (nat n_threads) (nat n_runs)) [] s")
  have a: "experiment_fn f n_threads n_runs s = Inr ((), s')"
    by (simp add: experiment_fn_run_threads r)
  from run_threads_calls [OF assms(1), of "replicate (nat n_threads) (nat n_runs)" "[]" s] r p
  have b: "length calls = 16" "\<forall>i<nat n_threads. count_list calls i = nat n_runs"
    "invocations s' = invocations s + 16"
    by (simp_all add: sum_list_replicate)
  from run_threaded_invocations [OF assms(1), of ft test_iterations n_threads n_runs s] p
  have d: "invocations (outcome_world (run_threaded ft f test_iterations n_threads n_runs s))
           = invocations s + 16 * nat test_iterations" by simp
  have e: "invocations s'' = invocations s + 4 * (16 * nat test_iterations)"
    if "test ft f_name f test_iterations s = Inr ((), s'')"
    using test_invocations [OF assms(1) that] .
  from r a b d e show ?thesis by blast
qed

text \<open>
  C4 with 16 calls per configuration for every \<open>test_iterations\<close> fails for
  \<open>test_iterations = 2\<close>: in the configuration of 1 thread and 16 runs the driver makes 32
  calls of the workload, not 16.
\<close>

theorem workload_invocations_counterexample:
  "invocations (outcome_world (run_threaded example_text pure_workload 2 1 16 example_world))
     = invocations example_world + 32
   \<and> invocations (outcome_world (run_threaded example_text pure_workload 2 1 16 example_world))
     \<noteq> invocations example_world + 16"
proof -
  have c: "\<forall>s. \<exists>s'. pure_workload s = Inr ((), s')"
    by (simp add: pure_workload_def)
  from run_threaded_invocations [OF c, of example_text 2 1 16 example_world]
  show ?thesis by simp
qed

subsection \<open>The effect of the driver\<close>

lemma runs_loop_effect:
  assumes "\<forall>s. \<exists>s'. func s = Inr ((), s') \<and> stdout s' = stdout s \<and> files s' = files s
                    \<and> writable s' = writable s"
  shows "\<exists>new s'. runs_loop ft func verbose n b title js runs s = Inr (runs @ new, s')
           \<and> map fst new = map (\<lambda>i. i + 1) js \<and> map (fst \<circ> snd) new = map (\<lambda>_. b) js
           \<and> stdout s' = stdout s @ (if verbose then map (verbose_line ft title n) new else [])
           \<and> files s' = files s \<and> writable s' = writable s"
proof (induction js arbitrary: runs s)
  case Nil
  show ?case by simp
next
  case (Cons i js)
  obtain t1 s1 where p1: "perf_counter s = (t1, s1)" by (cases "perf_counter s")
  from assms obtain s2 where f: "func s1 = Inr ((), s2)"
    and f2: "stdout s2 = stdout s1" "files s2 = files s1" "writable s2 = writable s1" by blast
  obtain t2 s3 where p2: "perf_counter s2 = (t2, s3)" by (cases "perf_counter s2")
  define r where "r = (i + 1, b, t2 - t1)"
  define s4 where "s4 = (if verbose
      then py_print (title @ '' '' @ str_int (i + 1) @ ''/'' @ str_int n @ '': ''
                       @ format_float_8 ft 14 (t2 - t1) @ '' s'') s3 else s3)"
  have step: "runs_loop ft func verbose n b title (i # js) runs s
      = runs_loop ft func verbose n b title js (runs @ [r]) s4"
    using p1 f p2 by (simp add: Let_def s4_def r_def)
  have u1: "stdout s1 = stdout s" "files s1 = files s" "writable s1 = writable s"
    using p1 perf_counter_frame(1,2,3) [of s] by simp_all
  have u3: "stdout s3 = stdout s2" "files s3 = files s2" "writable s3 = writable s2"
    using p2 perf_counter_frame(1,2,3) [of s2] by simp_all
  have u4: "stdout s4 = stdout s @ (if verbose then [verbose_line ft title n r] else [])"
    "files s4 = files s" "writable s4 = writable s"
    using u1 u3 f2 by (simp_all add: s4_def py_print_def verbose_line_def r_def)
  from Cons.IH [of "runs @ [r]" s4] obtain new s' where
    ih: "runs_loop ft func verbose n b title js (runs @ [r]) s4 = Inr ((runs @ [r]) @ new, s')"
      "map fst new = map (\<lambda>i. i + 1) js" "map (fst \<circ> snd) new = map (\<lambda>_. b) js"
      "stdout s' = stdout s4 @ (if verbose then map (verbose_line ft title n) new else [])"
      "files s' = files s4" "writable s' = writable s4"
    by blast
  have "runs_loop ft func verbose n b title (i # js) runs s = Inr (runs @ (r # new), s')"
    unfolding step using ih(1) by simp
  moreover have "map fst (r # new) = map (\<lambda>i. i + 1) (i # js)"
    "map (fst \<circ> snd) (r # new) = map (\<lambda>_. b) (i # js)"
    using ih(2,3) by (simp_all add: r_def)
  moreover have "stdout s' = stdout s
      @ (if verbose then map (verbose_line ft title n) (r # new) else [])"
    using ih(4) u4(1) by simp
  moreover have "files s' = files s" "writable s' = writable s"
    using ih(5,6) u4(2,3) by simp_all
  ultimately show ?case by blast
qed

lemma start_runs_effect:
  assumes "\<forall>s. \<exists>s'. func s = Inr ((), s') \<and> stdout s' = stdout s \<and> files s' = files s
                    \<and> writable s' = writable s"
  shows "\<exists>rs s'. start_runs ft func verbose n b title s = Inr (rs, s')
           \<and> map fst rs = [1..n] \<and> map (fst \<circ> snd) rs = replicate (nat n) b
           \<and> stdout s' = stdout s @ (if verbose then map (verbose_line ft title n) rs else [])
           \<and> files s' = files s \<and> writable s' = writable s"
  using runs_loop_effect [OF assms, of ft verbose n b title "py_range n" "[]" s]
  by (auto simp: start_runs_def py_range_shift map_replicate_const length_py_range)

lemma wrapper_effect:
  assumes fr: "\<forall>s. \<exists>s'. func s = Inr ((), s') \<and> stdout s' = stdout s \<and> files s' = files s
                    \<and> writable s' = writable s"
    and wr: "writable s path"
  shows "\<exists>er s'. wrapper ft 0 k True (Some path) func s = Inr ((), s')
           \<and> map fst er = [1..k] \<and> map (fst \<circ> snd) er = replicate (nat k) False
           \<and> stdout s' = stdout s @ map (verbose_line ft ''Execution round'' k) er
                                    @ table_lines ft [] er
           \<and> files s' = (files s)(path \<mapsto> csv_text ft er) \<and> writable s' = writable s"
proof -
  have a: "start_runs ft func True 0 True ''Warmup round'' s = Inr ([], s)"
    by (simp add: start_runs_def py_range_def)
  from start_runs_effect [OF fr, of ft True k False "''Execution round''" s]
  obtain er s2 where
    b: "start_runs ft func True k False ''Execution round'' s = Inr (er, s2)"
    and er: "map fst er = [1..k]" "map (fst \<circ> snd) er = replicate (nat k) False"
    and s2: "stdout s2 = stdout s @ map (verbose_line ft ''Execution round'' k) er"
      "files s2 = files s" "writable s2 = writable s"
    by auto
  from a b have e: "execute_runs ft 0 k True func s = Inr (([], er), s2)"
    by (auto simp: execute_runs_Inr)
  define s' where "s' = (csv_written ft (Some path) ([] @ er) s2)
      \<lparr>stdout := stdout s2 @ table_lines ft [] er\<rparr>"
  have "wrapper ft 0 k True (Some path) func s = Inr ((), s')"
    using wr s2(3) by (simp add: wrapper_after_runs [OF e] can_write_def s'_def)
  moreover have "stdout s' = stdout s @ map (verbose_line ft ''Execution round'' k) er
                                    @ table_lines ft [] er"
    by (simp add: s'_def s2(1))
  moreover have "files s' = (files s)(path \<mapsto> csv_text ft er)" "writable s' = writable s"
    by (simp_all add: s'_def csv_written_def s2)
  ultimately show ?thesis using er by blast
qed

lemma experiment_fn_effect:
  assumes "\<forall>s. stdout (outcome_world (f s)) = stdout s \<and> files (outcome_world (f s)) = files s
               \<and> writable (outcome_world (f s)) = writable s"
  shows "\<forall>s. \<exists>s'. experiment_fn f n_threads n_runs s = Inr ((), s') \<and> stdout s' = stdout s
                 \<and> files s' = files s \<and> writable s' = writable s"
proof
  fix s
  have "stdout (outcome_world (experiment_fn f n_threads n_runs s)) = stdout s"
    "files (outcome_world (experiment_fn f n_threads n_runs s)) = files s"
    "writable (outcome_world (experiment_fn f n_threads n_runs s)) = writable s"
    using assms by (simp_all add: experiment_fn_frame)
  then show "\<exists>s'. experiment_fn f n_threads n_runs s = Inr ((), s') \<and> stdout s' = stdout s
                 \<and> files s' = files s \<and> writable s' = writable s"
    by (simp add: experiment_fn_run_threads outcome_world_def)
qed

lemma run_threaded_effect:
  assumes fr: "\<forall>s. stdout (outcome_world (f s)) = stdout s \<and> files (outcome_world (f s)) = files s
               \<and> writable (outcome_world (f s)) = writable s"
    and wr: "writable s (''f_'' @ str_int n_threads @ ''_'' @ str_int n_runs @ ''.csv'')"
  shows "\<exists>er s'. run_threaded ft f k n_threads n_runs s = Inr ((), s')
           \<and> map fst er = [1..k] \<and> map (fst \<circ> snd) er = replicate (nat k) False
           \<and> stdout s' = stdout s @ map (verbose_line ft ''Execution round'' k) er
                                    @ table_lines ft [] er
           \<and> files s' = (files s)(''f_'' @ str_int n_threads @ ''_'' @ str_int n_runs @ ''.csv''
                                    \<mapsto> csv_text ft er)
           \<and> writable s' = writable s"
  unfolding run_threaded_def benchmark_def
  by (rule wrapper_effect [OF experiment_fn_effect [OF fr] wr])

lemma csv_names:
  "''f_'' @ str_int 1 @ ''_'' @ str_int 16 @ ''.csv'' = ''f_1_16.csv''"
  "''f_'' @ str_int 2 @ ''_'' @ str_int 8 @ ''.csv'' = ''f_2_8.csv''"
  "''f_'' @ str_int 4 @ ''_'' @ str_int 4 @ ''.csv'' = ''f_4_4.csv''"
  "''f_'' @ str_int 8 @ ''_'' @ str_int 2 @ ''.csv'' = ''f_8_2.csv''"
  by (simp_all add: str_int_def str_nat.simps digit_def)

lemma test_effect:
  assumes fr: "\<forall>s. stdout (outcome_world (f s)) = stdout s \<and> files (outcome_world (f s)) = files s
               \<and> writable (outcome_world (f s)) = writable s"
    and wr: "\<forall>p\<in>set [''f_1_16.csv'', ''f_2_8.csv'', ''f_4_4.csv'', ''f_8_2.csv'']. writable s p"
  shows "\<exists>e1 e2 e3 e4 s'. test ft f_name f k s = Inr ((), s')
     \<and> (\<forall>e\<in>set [e1, e2, e3, e4]. map fst e = [1..k] \<and> map (fst \<circ> snd) e = replicate (nat k) False)
     \<and> files s' = (files s)(''f_1_16.csv'' \<mapsto> csv_text ft e1, ''f_2_8.csv'' \<mapsto> csv_text ft e2,
                            ''f_4_4.csv'' \<mapsto> csv_text ft e3, ''f_8_2.csv'' \<mapsto> csv_text ft e4)
     \<and> stdout s' = stdout s
         @ configuration_output ft
             (''Testing the function '' @ f_name @ '' with 1 thread and 16 runs.'') k e1
         @ configuration_output ft
             (''Testing the function '' @ f_name @ '' with 2 threads and 8 runs.'') k e2
         @ configuration_output ft
             (''Testing the function '' @ f_name @ '' with 4 threads and 4 runs.'') k e3
         @ configuration_output ft
             (''Testing the function '' @ f_name @ '' with 8 threads and 2 runs.'') k e4"
proof -
  let ?t1 = "''Testing the function '' @ f_name @ '' with 1 thread and 16 runs.''"
  let ?t2 = "''Testing the function '' @ f_name @ '' with 2 threads and 8 runs.''"
  let ?t3 = "''Testing the function '' @ f_name @ '' with 4 threads and 4 runs.''"
  let ?t4 = "''Testing the function '' @ f_name @ '' with 8 threads and 2 runs.''"
  define b1 where "b1 = py_print ?t1 s"
  have w1: "writable b1 (''f_'' @ str_int 1 @ ''_'' @ str_int 16 @ ''.csv'')"
    unfolding csv_names using wr by (simp add: b1_def py_print_frame)
  from run_threaded_effect [OF fr w1, of ft k] obtain e1 s1 where
    r1: "run_threaded ft f k 1 16 b1 = Inr ((), s1)"
    and e1: "map fst e1 = [1..k]" "map (fst \<circ> snd) e1 = replicate (nat k) False"
    and o1: "stdout s1 = stdout b1 @ map (verbose_line ft ''Execution round'' k) e1
               @ table_lines ft [] e1"
    and f1: "files s1 = (files b1)(''f_1_16.csv'' \<mapsto> csv_text ft e1)"
    and v1: "writable s1 = writable b1"
    unfolding csv_names by blast
  define b2 where "b2 = py_print ?t2 s1"
  have w2: "writable b2 (''f_'' @ str_int 2 @ ''_'' @ str_int 8 @ ''.csv'')"
    unfolding csv_names using wr v1 by (simp add: b1_def b2_def py_print_frame)
  from run_threaded_effect [OF fr w2, of ft k] obtain e2 s2 where
    r2: "run_threaded ft f k 2 8 b2 = Inr ((), s2)"
    and e2: "map fst e2 = [1..k]" "map (fst \<circ> snd) e2 = replicate (nat k) False"
    and o2: "stdout s2 = stdout b2 @ map (verbose_line ft ''Execution round'' k) e2
               @ table_lines ft [] e2"
    and f2: "files s2 = (files b2)(''f_2_8.csv'' \<mapsto> csv_text ft e2)"
    and v2: "writable s2 = writable b2"
    unfolding csv_names by blast
  define b3 where "b3 = py_print ?t3 s2"
  have w3: "writable b3 (''f_'' @ str_int 4 @ ''_'' @ str_int 4 @ ''.csv'')"
    unfolding csv_names using wr v1 v2 by (simp add: b1_def b2_def b3_def py_print_frame)
  from run_threaded_effect [OF fr w3, of ft k] obtain e3 s3 where
    r3: "run_threaded ft f k 4 4 b3 = Inr ((), s3)"
    and e3: "map fst e3 = [1..k]" "map (fst \<circ> snd) e3 = replicate (nat k) False"
    and o3: "stdout s3 = stdout b3 @ map (verbose_line ft ''Execution round'' k) e3
               @ table_lines ft [] e3"
    and f3: "files s3 = (files b3)(''f_4_4.csv'' \<mapsto> csv_text ft e3)"
    and v3: "writable s3 = writable b3"
    unfolding csv_names by blast
  define b4 where "b4 = py_print ?t4 s3"
  have w4: "writable b4 (''f_'' @ str_int 8 @ ''_'' @ str_int 2 @ ''.csv'')"
    unfolding csv_names using wr v1 v2 v3
    by (simp add: b1_def b2_def b3_def b4_def py_print_frame)
  from run_threaded_effect [OF fr w4, of ft k] obtain e4 s4 where
    r4: "run_threaded ft f k 8 2 b4 = Inr ((), s4)"
    and e4: "map fst e4 = [1..k]" "map (fst \<circ> snd) e4 = replicate (nat k) False"
    and o4: "stdout s4 = stdout b4 @ map (verbose_line ft ''Execution round'' k) e4
               @ table_lines ft [] e4"
    and f4: "files s4 = (files b4)(''f_8_2.csv'' \<mapsto> csv_text ft e4)"
    and v4: "writable s4 = writable b4"
    unfolding csv_names by blast
  have t: "test ft f_name f k s = Inr ((), s4)"
    using r1 r2 r3 r4 by (simp add: test_def then_do_def b1_def b2_def b3_def b4_def)
  have ff: "files s4 = (files s)(''f_1_16.csv'' \<mapsto> csv_text ft e1, ''f_2_8.csv'' \<mapsto> csv_text ft e2,
                            ''f_4_4.csv'' \<mapsto> csv_text ft e3, ''f_8_2.csv'' \<mapsto> csv_text ft e4)"
    by (simp only: f4 f3 f2 f1 b1_def b2_def b3_def b4_def py_print_frame)
  have oo: "stdout s4 = stdout s @ configuration_output ft ?t1 k e1
         @ configuration_output ft ?t2 k e2 @ configuration_output ft ?t3 k e3
         @ configuration_output ft ?t4 k e4"
    by (simp add: o4 o3 o2 o1 b1_def b2_def b3_def b4_def py_print_def configuration_output_def)
  have ee: "\<forall>e\<in>set [e1, e2, e3, e4]. map fst e = [1..k]
      \<and> map (fst \<circ> snd) e = replicate (nat k) False"
    using e1 e2 e3 e4 by simp
  from t ee ff oo show ?thesis by blast
qed

theorem workload_invocations_witness:
  "(\<forall>s. \<exists>s'. pure_workload s = Inr ((), s'))
   \<and> (2, 8) \<in> set [(1, 16), (2, 8), (4, 4), (8, 2 :: int)]
   \<and> (\<exists>calls s'. run_threads pure_workload (replicate (nat 2) (nat 8)) [] example_world
                    = (calls, s')
         \<and> length calls = 16 \<and> (\<forall>i<nat 2. count_list calls i = nat 8)
         \<and> invocations s' = invocations example_world + 16)
   \<and> invocations (outcome_world (run_threaded example_text pure_workload 3 2 8 example_world))
       = invocations example_world + 16 * nat 3
   \<and> (\<exists>s''. test example_text ''fib'' pure_workload 3 example_world = Inr ((), s'')
         \<and> invocations s'' = invocations example_world + 4 * (16 * nat 3))"
proof -
  have c: "\<forall>s. \<exists>s'. pure_workload s = Inr ((), s')"
    by (simp add: pure_workload_def)
  have m: "(2, 8) \<in> set [(1, 16), (2, 8), (4, 4), (8, 2 :: int)]" by simp
  have fr: "\<forall>s. stdout (outcome_world (pure_workload s)) = stdout s
      \<and> files (outcome_world (pure_workload s)) = files s
      \<and> writable (outcome_world (pure_workload s)) = writable s"
    by (simp add: pure_workload_def outcome_world_def)
  have wr: "\<forall>p\<in>set [''f_1_16.csv'', ''f_2_8.csv'', ''f_4_4.csv'', ''f_8_2.csv''].
      writable example_world p"
    by (simp add: example_world_def)
  from test_effect [OF fr wr, of example_text "''fib''" 3] obtain s'' where
    t': "test example_text ''fib'' pure_workload 3 example_world = Inr ((), s'')"
    by blast
  from workload_invocations [where f = pure_workload and n_threads = 2
      and n_runs = 8 and s = example_world and ft = example_text and test_iterations = 3
      and f_name = "''fib''" and s'' = s'', OF c m]
  have "(\<exists>calls s'. run_threads pure_workload (replicate (nat 2) (nat 8)) [] example_world
                    = (calls, s')
         \<and> length calls = 16 \<and> (\<forall>i<nat 2. count_list calls i = nat 8)
         \<and> invocations s' = invocations example_world + 16)"
    and "invocations (outcome_world (run_threaded example_text pure_workload 3 2 8 example_world))
       = invocations example_world + 16 * nat 3"
    and "invocations s'' = invocations example_world + 4 * (16 * nat 3)"
    using t' by blast+
  with c m t' show ?thesis by blast
qed

text \<open>
  C8: for each of the four configurations the driver wraps the task with warmup count 0,
  iteration count \<open>test_iterations\<close>, verbose enabled and the output file
  \<^verbatim>\<open>f_<threads>_<runs>.csv\<close>, and invokes the wrapped task once. Observably, for a workload
  that leaves standard output and the files alone and with the four files writable, the
  driver returns; each of the files \<^verbatim>\<open>f_1_16.csv\<close>, \<^verbatim>\<open>f_2_8.csv\<close>, \<^verbatim>\<open>f_4_4.csv\<close>, \<^verbatim>\<open>f_8_2.csv\<close>
  holds the header and \<open>test_iterations\<close> rows, numbered from 1 and none marked as warmup;
  and standard output gains, per configuration and in this order, the banner, one
  \<^verbatim>\<open>Execution round i/test_iterations\<close> line per row and one statistics table.
\<close>

theorem driver_configurations:
  assumes "\<forall>s. stdout (outcome_world (f s)) = stdout s \<and> files (outcome_world (f s)) = files s
               \<and> writable (outcome_world (f s)) = writable s"
    and "\<forall>p\<in>set [''f_1_16.csv'', ''f_2_8.csv'', ''f_4_4.csv'', ''f_8_2.csv'']. writable s p"
  shows "(\<forall>(t, r)\<in>set [(1, 16), (2, 8), (4, 4), (8, 2)].
            run_threaded ft f k t r
              = wrapper ft 0 k True (Some (''f_'' @ str_int t @ ''_'' @ str_int r @ ''.csv''))
                  (experiment_fn f t r))
     \<and> (\<exists>e1 e2 e3 e4 s'. test ft f_name f k s = Inr ((), s')
         \<and> (\<forall>e\<in>set [e1, e2, e3, e4].
               map fst e = [1..k] \<and> map (fst \<circ> snd) e = replicate (nat k) False)
         \<and> files s' = (files s)(''f_1_16.csv'' \<mapsto> csv_text ft e1, ''f_2_8.csv'' \<mapsto> csv_text ft e2,
                                ''f_4_4.csv'' \<mapsto> csv_text ft e3, ''f_8_2.csv'' \<mapsto> csv_text ft e4)
         \<and> stdout s' = stdout s
             @ configuration_output ft
                 (''Testing the function '' @ f_name @ '' with 1 thread and 16 runs.'') k e1
             @ configuration_output ft
                 (''Testing the function '' @ f_name @ '' with 2 threads and 8 runs.'') k e2
             @ configuration_output ft
                 (''Testing the function '' @ f_name @ '' with 4 threads and 4 runs.'') k e3
             @ configuration_output ft
                 (''Testing the function '' @ f_name @ '' with 8 threads and 2 runs.'') k e4)"
proof
  show "\<forall>(t, r)\<in>set [(1, 16), (2, 8), (4, 4), (8, 2)].
            run_threaded ft f k t r
              = wrapper ft 0 k True (Some (''f_'' @ str_int t @ ''_'' @ str_int r @ ''.csv''))
                  (experiment_fn f t r)"
    by (simp add: run_threaded_def benchmark_def)
next
  show "\<exists>e1 e2 e3 e4 s'. test ft f_name f k s = Inr ((), s')
         \<and> (\<forall>e\<in>set [e1, e2, e3, e4].
               map fst e = [1..k] \<and> map (fst \<circ> snd) e = replicate (nat k) False)
         \<and> files s' = (files s)(''f_1_16.csv'' \<mapsto> csv_text ft e1, ''f_2_8.csv'' \<mapsto> csv_text ft e2,
                                ''f_4_4.csv'' \<mapsto> csv_text ft e3, ''f_8_2.csv'' \<mapsto> csv_text ft e4)
         \<and> stdout s' = stdout s
             @ configuration_output ft
                 (''Testing the function '' @ f_name @ '' with 1 thread and 16 runs.'') k e1
             @ configuration_output ft
                 (''Testing the function '' @ f_name @ '' with 2 threads and 8 runs.'') k e2
             @ configuration_output ft
                 (''Testing the function '' @ f_name @ '' with 4 threads and 4 runs.'') k e3
             @ configuration_output ft
                 (''Testing the function '' @ f_name @ '' with 8 threads and 2 runs.'') k e4"
    by (rule test_effect [OF assms])
qed

theorem driver_configurations_witness:
  "(\<forall>s. stdout (outcome_world (counting s)) = stdout s
        \<and> files (outcome_world (counting s)) = files s
        \<and> writable (outcome_world (counting s)) = writable s)
   \<and> writable example_world ''f_1_16.csv'' \<and> writable example_world ''f_2_8.csv''
   \<and> writable example_world ''f_4_4.csv'' \<and> writable example_world ''f_8_2.csv''
   \<and> (\<exists>e1 e2 e3 e4 s'. test example_text ''fib'' counting 2 example_world = Inr ((), s')
         \<and> (\<forall>e\<in>set [e1, e2, e3, e4].
               map fst e = [1, 2] \<and> map (fst \<circ> snd) e = [False, False])
         \<and> files s' ''f_1_16.csv'' = Some (csv_text example_text e1)
         \<and> files s' ''f_2_8.csv'' = Some (csv_text example_text e2)
         \<and> files s' ''f_4_4.csv'' = Some (csv_text example_text e3)
         \<and> files s' ''f_8_2.csv'' = Some (csv_text example_text e4)
         \<and> length (stdout s') = 20)"
proof -
  have fr: "\<forall>s. stdout (outcome_world (counting s)) = stdout s
      \<and> files (outcome_world (counting s)) = files s
      \<and> writable (outcome_world (counting s)) = writable s"
    by (simp add: counting_def outcome_world_def)
  have wr: "\<forall>p\<in>set [''f_1_16.csv'', ''f_2_8.csv'', ''f_4_4.csv'', ''f_8_2.csv''].
      writable example_world p"
    by (simp add: example_world_def)
  have u: "[1..2] = [1, 2]" by (simp add: upto.simps)
  have v: "replicate (nat 2) False = [False, False]" by (simp add: numeral_2_eq_2)
  from driver_configurations [OF fr wr, of example_text 2 "''fib''"]
  obtain e1 e2 e3 e4 s' where
    t: "test example_text ''fib'' counting 2 example_world = Inr ((), s')"
    and e: "\<forall>e\<in>set [e1, e2, e3, e4]. map fst e = [1, 2] \<and> map (fst \<circ> snd) e = [False, False]"
    and f: "files s' = (files example_world)(''f_1_16.csv'' \<mapsto> csv_text example_text e1,
          ''f_2_8.csv'' \<mapsto> csv_text example_text e2, ''f_4_4.csv'' \<mapsto> csv_text example_text e3,
          ''f_8_2.csv'' \<mapsto> csv_text example_text e4)"
    and o: "stdout s' = stdout example_world
             @ configuration_output example_text
                 (''Testing the function '' @ ''fib'' @ '' with 1 thread and 16 runs.'') 2 e1
             @ configuration_output example_text
                 (''Testing the function '' @ ''fib'' @ '' with 2 threads and 8 runs.'') 2 e2
             @ configuration_output example_text
                 (''Testing the function '' @ ''fib'' @ '' with 4 threads and 4 runs.'') 2 e3
             @ configuration_output example_text
                 (''Testing the function '' @ ''fib'' @ '' with 8 threads and 2 runs.'') 2 e4"
    unfolding u v by blast
  from e have l: "length e1 = 2" "length e2 = 2" "length e3 = 2" "length e4 = 2"
    by (auto dest: arg_cong [where f = length])
  have n: "length (stdout s') = 20"
    using l by (simp add: o configuration_output_def table_lines_def table_rows_def
        example_world_def Let_def)
  have g: "files s' ''f_1_16.csv'' = Some (csv_text example_text e1)"
    "files s' ''f_2_8.csv'' = Some (csv_text example_text e2)"
    "files s' ''f_4_4.csv'' = Some (csv_text example_text e3)"
    "files s' ''f_8_2.csv'' = Some (csv_text example_text e4)"
    by (simp_all add: f)
  have wr': "writable example_world ''f_1_16.csv''" "writable example_world ''f_2_8.csv''"
    "writable example_world ''f_4_4.csv''" "writable example_world ''f_8_2.csv''"
    by (simp_all add: example_world_def)
  from fr wr' t e g n show ?thesis by blast
qed

end
